theory Spec2Isabelle
  imports Main "HOL-Library.Word" "HOL-Library.DAList"
begin

unbundle bit_operations_syntax

section \<open>Buffers and the external codec\<close>

text \<open>
  A Node \<^verbatim>\<open>Buffer\<close> is a list of bytes.  The property-list library (\<^verbatim>\<open>plist.build\<close>,
  \<^verbatim>\<open>plist.parse\<close>) and the conversions between JavaScript strings and buffers
  (\<^verbatim>\<open>Buffer.from(string)\<close>, the \<^verbatim>\<open>toString()\<close> that \<^verbatim>\<open>msg += body\<close> applies to a buffer)
  are not part of \<^verbatim>\<open>lib/usbmux.ts\<close>; they are the four fields of a \<open>codec\<close> record and every
  function that calls them takes the codec as its first argument.
\<close>

type_synonym byte = "8 word"
type_synonym buffer = "byte list"

datatype error = RangeError | TypeError | PlistError

datatype plist_value =
    PString string
  | PNumber int
  | PBool bool
  | PArray "plist_value list"
  | PDict "(string \<times> plist_value) list"

text \<open>\<^verbatim>\<open>obj[k]\<close> on a value that is a dictionary.\<close>

definition plist_field :: "plist_value \<Rightarrow> string \<Rightarrow> plist_value option" where
  "plist_field v k = (case v of PDict kvs \<Rightarrow> map_of kvs k | _ \<Rightarrow> None)"

record 'm codec =
  plist_build :: "plist_value \<Rightarrow> string"
  from_string :: "string \<Rightarrow> buffer"
  to_string :: "buffer \<Rightarrow> string"
  plist_parse :: "string \<Rightarrow> error + 'm"

text \<open>
  \<^verbatim>\<open>buf.subarray(start, end)\<close>: a negative index counts from the end, and both indices are
  clamped to the buffer.  \<open>subarray_from\<close> is the call with one argument.
\<close>

definition clamp_index :: "nat \<Rightarrow> int \<Rightarrow> nat" where
  "clamp_index n i = (if i < 0 then nat (max (int n + i) 0) else min (nat i) n)"

definition subarray :: "buffer \<Rightarrow> int \<Rightarrow> int \<Rightarrow> buffer" where
  "subarray buf start end' =
     (let s = clamp_index (length buf) start; e = clamp_index (length buf) end'
      in take (e - s) (drop s buf))"

definition subarray_from :: "buffer \<Rightarrow> int \<Rightarrow> buffer" where
  "subarray_from buf start = subarray buf start (int (length buf))"

text \<open>
  \<^verbatim>\<open>buf.readUInt32LE(offset)\<close> throws a RangeError when the four bytes are not all inside
  the buffer.  \<^verbatim>\<open>buf.writeUInt32LE(value, offset)\<close> throws a RangeError when the value is
  not in \<open>[0, 2^32 - 1]\<close> or the four bytes do not fit.
\<close>

definition readUInt32LE :: "buffer \<Rightarrow> nat \<Rightarrow> error + int" where
  "readUInt32LE buf offset =
     (if length buf < offset + 4 then Inl RangeError
      else Inr (uint (buf ! offset) + uint (buf ! (offset + 1)) * 2 ^ 8
                + uint (buf ! (offset + 2)) * 2 ^ 16 + uint (buf ! (offset + 3)) * 2 ^ 24))"

definition writeUInt32LE :: "buffer \<Rightarrow> int \<Rightarrow> nat \<Rightarrow> error + buffer" where
  "writeUInt32LE buf v offset =
     (if v < 0 \<or> 2 ^ 32 - 1 < v \<or> length buf < offset + 4 then Inl RangeError
      else Inr (buf[offset := word_of_int v,
                    offset + 1 := word_of_int (v div 2 ^ 8),
                    offset + 2 := word_of_int (v div 2 ^ 16),
                    offset + 3 := word_of_int (v div 2 ^ 24)]))"

section \<open>Protocol codec: \<^verbatim>\<open>pack\<close>, \<^verbatim>\<open>byteSwap16\<close>, \<^verbatim>\<open>connect\<close>, \<^verbatim>\<open>makeParser\<close>\<close>

text \<open>\<^verbatim>\<open>pack(payload_obj)\<close>: a 16-byte header (len, version 1, request 8, tag 1) and the payload.\<close>

definition pack :: "'m codec \<Rightarrow> plist_value \<Rightarrow> error + buffer" where
  "pack c payload_obj =
     (let payload_plist = plist_build c payload_obj;
          payload_buf = from_string c payload_plist;
          header_len = int (length payload_buf) + 16;
          header_buf = replicate 16 (0 :: byte)
      in case writeUInt32LE header_buf header_len 0 of Inl e \<Rightarrow> Inl e | Inr h1 \<Rightarrow>
         (case writeUInt32LE h1 1 4 of Inl e \<Rightarrow> Inl e | Inr h2 \<Rightarrow>
         (case writeUInt32LE h2 8 8 of Inl e \<Rightarrow> Inl e | Inr h3 \<Rightarrow>
         (case writeUInt32LE h3 1 12 of Inl e \<Rightarrow> Inl e | Inr h4 \<Rightarrow>
            Inr (h4 @ payload_buf)))))"

text \<open>
  \<open>is_header hdr n\<close>: \<open>hdr\<close> is a 16-byte header whose length field announces a payload of
  \<open>n\<close> bytes.  The parser reads nothing else of a header, so this covers the frames of the
  daemon as well as those of \<^verbatim>\<open>pack\<close>.
\<close>

definition is_header :: "buffer \<Rightarrow> nat \<Rightarrow> bool" where
  "is_header hdr n \<longleftrightarrow> length hdr = 16 \<and> readUInt32LE hdr 0 = Inr (int n + 16)"

text \<open>
  \<^verbatim>\<open>byteSwap16(val)\<close> is \<^verbatim>\<open>((val & 0xff) << 8) | ((val >> 8) & 0xff)\<close>.  The bitwise operators
  of JavaScript work on the 32-bit two's complement value of their operand (\<open>word_of_int\<close>
  for an integer), \<^verbatim>\<open>>>\<close> is the arithmetic shift, and the result is read back signed.
\<close>

definition byteSwap16 :: "int \<Rightarrow> int" where
  "byteSwap16 val =
     (let v = (word_of_int val :: 32 word)
      in sint (push_bit 8 (v AND 0xff) OR (signed_drop_bit 8 v AND 0xff)))"

text \<open>The constant \<^verbatim>\<open>listen\<close> request and \<^verbatim>\<open>connect(deviceID, port)\<close>.\<close>

definition listen_payload :: plist_value where
  "listen_payload = PDict
     [(''MessageType'', PString ''Listen''),
      (''ClientVersionString'', PString ''node-usbmux''),
      (''ProgName'', PString ''node-usbmux'')]"

definition listen :: "'m codec \<Rightarrow> error + buffer" where
  "listen c = pack c listen_payload"

definition connect_payload :: "int \<Rightarrow> int \<Rightarrow> plist_value" where
  "connect_payload deviceID port = PDict
     [(''MessageType'', PString ''Connect''),
      (''ClientVersionString'', PString ''node-usbmux''),
      (''ProgName'', PString ''node-usbmux''),
      (''DeviceID'', PNumber deviceID),
      (''PortNumber'', PNumber (byteSwap16 port))]"

definition protocol_connect :: "'m codec \<Rightarrow> int \<Rightarrow> int \<Rightarrow> error + buffer" where
  "protocol_connect c deviceID port = pack c (connect_payload deviceID port)"

text \<open>
  \<^verbatim>\<open>makeParser(onComplete)\<close> closes over two variables, \<^verbatim>\<open>len\<close> and \<^verbatim>\<open>msg\<close>.  Both start
  undefined; the only read before the first assignment is \<^verbatim>\<open>!len\<close>, which is true for
  undefined as it is for 0, so the initial state has \<open>len = 0\<close> and the empty text.

  The callback works on a state \<open>'w\<close> of its own and may throw.  An exception that leaves
  \<^verbatim>\<open>parse\<close> is \<open>Inl\<close>; \<^verbatim>\<open>parse\<close> calls itself on the rest of the chunk, and a call that never
  returns is \<open>None\<close> (the program then stops with the RangeError of an exhausted stack).
\<close>

record parser_state =
  len :: int
  msg :: string

definition makeParser :: parser_state where
  "makeParser = \<lparr>len = 0, msg = []\<rparr>"

text \<open>Lines 178 to 187: a new message starts, the chunk begins with its header.\<close>

definition parse_header :: "parser_state \<Rightarrow> buffer \<Rightarrow> error + parser_state \<times> buffer option" where
  "parse_header s data =
     (if len s = 0 then
        (case readUInt32LE data 0 of
           Inl e \<Rightarrow> Inl e
         | Inr n \<Rightarrow>
             (let s1 = s\<lparr>len := n - 16, msg := []\<rparr>;
                  data1 = subarray_from data 16
              in if data1 = [] then Inr (s1, None) else Inr (s1, Some data1)))
      else Inr (s, Some data))"

text \<open>Lines 190 to 199: take the body, call back when the message is complete, keep the rest.\<close>

definition parse_body ::
  "'m codec \<Rightarrow> ('m \<Rightarrow> 'w \<Rightarrow> error + 'w) \<Rightarrow> parser_state \<Rightarrow> 'w \<Rightarrow> buffer
     \<Rightarrow> error + parser_state \<times> 'w \<times> buffer" where
  "parse_body c onComplete s w data =
     (let body = subarray data 0 (len s);
          s1 = s\<lparr>msg := msg s @ to_string c body\<rparr>;
          s2 = s1\<lparr>len := len s1 - int (length body)\<rparr>;
          data1 = subarray_from data (int (length body))
      in if len s2 = 0 then
           (case plist_parse c (msg s2) of
              Inl e \<Rightarrow> Inl e
            | Inr m \<Rightarrow> (case onComplete m w of Inl e \<Rightarrow> Inl e | Inr w1 \<Rightarrow> Inr (s2, w1, data1)))
         else Inr (s2, w, data1))"

partial_function (option) parse ::
  "'m codec \<Rightarrow> ('m \<Rightarrow> 'w \<Rightarrow> error + 'w) \<Rightarrow> parser_state \<Rightarrow> 'w \<Rightarrow> buffer
     \<Rightarrow> (error + parser_state \<times> 'w) option" where
  "parse c onComplete s w data =
     (case parse_header s data of
        Inl e \<Rightarrow> Some (Inl e)
      | Inr (s1, None) \<Rightarrow> Some (Inr (s1, w))
      | Inr (s1, Some data1) \<Rightarrow>
          (case parse_body c onComplete s1 w data1 of
             Inl e \<Rightarrow> Some (Inl e)
           | Inr (s2, w2, data2) \<Rightarrow>
               if data2 \<noteq> [] then parse c onComplete s2 w2 data2 else Some (Inr (s2, w2))))"

declare parse.simps [code]

text \<open>
  The socket calls \<^verbatim>\<open>parse\<close> once for each data event, in order.  An exception thrown by a
  listener is not caught by anything in this library: the run ends there.
\<close>

fun feed ::
  "'m codec \<Rightarrow> ('m \<Rightarrow> 'w \<Rightarrow> error + 'w) \<Rightarrow> parser_state \<Rightarrow> 'w \<Rightarrow> buffer list
     \<Rightarrow> (error + parser_state \<times> 'w) option" where
  "feed c onComplete s w [] = Some (Inr (s, w))"
| "feed c onComplete s w (d # ds) =
     (case parse c onComplete s w d of
        None \<Rightarrow> None
      | Some (Inl e) \<Rightarrow> Some (Inl e)
      | Some (Inr (s1, w1)) \<Rightarrow> feed c onComplete s1 w1 ds)"

text \<open>A callback that only records the messages it is called with, in order.\<close>

definition record_call :: "'m \<Rightarrow> 'm list \<Rightarrow> error + 'm list" where
  "record_call m calls = Inr (calls @ [m])"

section \<open>The device registry\<close>

record Device =
  ConnectionType :: string
  DeviceID :: int
  LocationID :: int
  ProductID :: int
  SerialNumber :: string

text \<open>
  \<^verbatim>\<open>devices\<close> is a plain object, \<^verbatim>\<open>{}\<close>, used as a map from UDID to \<^verbatim>\<open>Device\<close>.  The model
  holds its own properties, a list of distinct keys in the order of their creation, and
  its prototype: \<open>None\<close> is \<^verbatim>\<open>Object.prototype\<close>, which a new object has, and \<open>Some d\<close> is a
  descriptor object \<open>d\<close> (itself a plain object) that an assignment to \<^verbatim>\<open>__proto__\<close> has put
  in its place.
\<close>

record registry =
  own :: "(string, Device) alist"
  proto :: "Device option"

text \<open>
  What a read \<^verbatim>\<open>devices[k]\<close> can give: undefined, a descriptor, a string or a number (a
  field of a descriptor that is the prototype), or another truthy value without the
  fields of a descriptor (a method of \<^verbatim>\<open>Object.prototype\<close>, or \<^verbatim>\<open>Object.prototype\<close> itself).
\<close>

datatype js_value = Undefined | Dev Device | Text string | Num int | Other

definition truthy_value :: "js_value \<Rightarrow> bool" where
  "truthy_value v =
     (case v of Undefined \<Rightarrow> False | Dev d \<Rightarrow> True | Text t \<Rightarrow> t \<noteq> [] | Num n \<Rightarrow> n \<noteq> 0
      | Other \<Rightarrow> True)"

text \<open>
  \<^verbatim>\<open>v.DeviceID\<close> and \<^verbatim>\<open>v.SerialNumber\<close>: a TypeError on undefined, the field of a descriptor,
  and undefined (\<open>None\<close>) on every other value.
\<close>

definition field_DeviceID :: "js_value \<Rightarrow> error + int option" where
  "field_DeviceID v =
     (case v of Undefined \<Rightarrow> Inl TypeError | Dev d \<Rightarrow> Inr (Some (DeviceID d)) | _ \<Rightarrow> Inr None)"

definition field_SerialNumber :: "js_value \<Rightarrow> error + string option" where
  "field_SerialNumber v =
     (case v of Undefined \<Rightarrow> Inl TypeError | Dev d \<Rightarrow> Inr (Some (SerialNumber d))
      | _ \<Rightarrow> Inr None)"

text \<open>
  The properties of \<^verbatim>\<open>Object.prototype\<close>, all of them methods but the accessor \<^verbatim>\<open>__proto__\<close>,
  whose getter gives the prototype and whose setter replaces it.  A property that the
  object does not own is looked for in its prototype, and then in \<^verbatim>\<open>Object.prototype\<close>.
\<close>

definition object_prototype_methods :: "string list" where
  "object_prototype_methods =
     [''constructor'', ''__defineGetter__'', ''__defineSetter__'', ''hasOwnProperty'',
      ''__lookupGetter__'', ''__lookupSetter__'', ''isPrototypeOf'', ''propertyIsEnumerable'',
      ''toString'', ''valueOf'', ''toLocaleString'']"

definition from_object_prototype :: "string \<Rightarrow> js_value" where
  "from_object_prototype k = (if k \<in> set object_prototype_methods then Other else Undefined)"

definition inherited :: "Device option \<Rightarrow> string \<Rightarrow> js_value" where
  "inherited pr k =
     (if k = ''__proto__'' then (case pr of None \<Rightarrow> Other | Some d \<Rightarrow> Dev d)
      else
        (case pr of
           None \<Rightarrow> from_object_prototype k
         | Some d \<Rightarrow>
             if k = ''ConnectionType'' then Text (ConnectionType d)
             else if k = ''DeviceID'' then Num (DeviceID d)
             else if k = ''LocationID'' then Num (LocationID d)
             else if k = ''ProductID'' then Num (ProductID d)
             else if k = ''SerialNumber'' then Text (SerialNumber d)
             else from_object_prototype k))"

text \<open>
  \<^verbatim>\<open>devices[k]\<close>, \<^verbatim>\<open>devices[k] = v\<close> and \<^verbatim>\<open>delete devices[k]\<close>.  An assignment changes an own
  property that exists and keeps its place; otherwise the key \<^verbatim>\<open>__proto__\<close> reaches the
  setter, which replaces the prototype and creates no property, and any other key becomes
  a new own property, the last one.
\<close>

definition get_property :: "registry \<Rightarrow> string \<Rightarrow> js_value" where
  "get_property r k =
     (case DAList.lookup (own r) k of Some d \<Rightarrow> Dev d | None \<Rightarrow> inherited (proto r) k)"

definition set_property :: "registry \<Rightarrow> string \<Rightarrow> Device \<Rightarrow> registry" where
  "set_property r k v =
     (if k = ''__proto__'' \<and> DAList.lookup (own r) k = None then r\<lparr>proto := Some v\<rparr>
      else r\<lparr>own := DAList.update k v (own r)\<rparr>)"

definition delete_property :: "registry \<Rightarrow> string \<Rightarrow> registry" where
  "delete_property r k = r\<lparr>own := DAList.delete k (own r)\<rparr>"

text \<open>
  \<^verbatim>\<open>Object.keys\<close> gives the own keys, but not in creation order: the keys that are array
  indices (the decimal form of an integer from 0 to \<open>2^32 - 2\<close>) come first, in
  ascending numeric order, and the other keys follow in creation order.
\<close>

definition is_digit :: "char \<Rightarrow> bool" where
  "is_digit ch \<longleftrightarrow> 48 \<le> (of_char ch :: nat) \<and> (of_char ch :: nat) \<le> 57"

definition digits_value :: "string \<Rightarrow> nat" where
  "digits_value k = foldl (\<lambda>a ch. 10 * a + (of_char ch - 48)) 0 k"

fun canonical_digits :: "string \<Rightarrow> bool" where
  "canonical_digits [] = False"
| "canonical_digits [ch] = is_digit ch"
| "canonical_digits (ch # chs) = (is_digit ch \<and> ch \<noteq> CHR ''0'' \<and> list_all is_digit chs)"

definition is_array_index :: "string \<Rightarrow> bool" where
  "is_array_index k \<longleftrightarrow> canonical_digits k \<and> digits_value k < 2 ^ 32 - 1"

definition object_keys :: "registry \<Rightarrow> string list" where
  "object_keys r =
     (let ks = map fst (DAList.impl_of (own r))
      in sort_key digits_value (filter is_array_index ks)
         @ filter (\<lambda>k. \<not> is_array_index k) ks)"

text \<open>
  An optional string is truthy when it is present and not empty.  \<open>and_string x P\<close> is
  \<^verbatim>\<open>x && P(x)\<close> and \<open>or_string x y\<close> is \<^verbatim>\<open>x || y\<close>, for an optional string \<open>x\<close>.
\<close>

definition truthy_string :: "string option \<Rightarrow> bool" where
  "truthy_string x = (case x of None \<Rightarrow> False | Some t \<Rightarrow> t \<noteq> [])"

definition and_string :: "string option \<Rightarrow> (string \<Rightarrow> bool) \<Rightarrow> bool" where
  "and_string x P = (case x of None \<Rightarrow> False | Some t \<Rightarrow> t \<noteq> [] \<and> P t)"

definition or_string :: "string option \<Rightarrow> string \<Rightarrow> string" where
  "or_string x y = (case x of None \<Rightarrow> y | Some t \<Rightarrow> if t \<noteq> [] then t else y)"

section \<open>Messages and errors\<close>

datatype UsbMuxPlist =
    Result int
  | Attached int Device
  | Detached int int

text \<open>Every variant has the field \<^verbatim>\<open>Number\<close>.\<close>

fun Number :: "UsbMuxPlist \<Rightarrow> int" where
  "Number (Result n) = n"
| "Number (Attached n props) = n"
| "Number (Detached n deviceID) = n"

text \<open>
  The decimal text of an integer, as string concatenation with a number gives it for an
  integer below \<open>10^21\<close> in absolute value; a larger number is written with an exponent,
  which the model does not do.
\<close>

function show_nat :: "nat \<Rightarrow> string" where
  "show_nat n =
     (if n < 10 then [char_of (48 + n)]
      else show_nat (n div 10) @ [char_of (48 + n mod 10)])"
  by pat_completeness auto
termination
  by (relation "measure id") auto

definition show_int :: "int \<Rightarrow> string" where
  "show_int i = (if i < 0 then CHR ''-'' # show_nat (nat (- i)) else show_nat (nat i))"

record UsbmuxdError =
  message :: string
  number :: "int option"

definition new_UsbmuxdError :: "string \<Rightarrow> int \<Rightarrow> UsbmuxdError" where
  "new_UsbmuxdError message0 n =
     (let m1 = (if n \<noteq> 0 then message0 @ '', Err #'' @ show_int n else message0);
          m2 = (if n = 2 then m1 @ '': Device isn't connected'' else m1);
          m3 = (if n = 3 then m2 @ '': Port isn't available or open'' else m2);
          m4 = (if n = 5 then m3 @ '': Malformed request'' else m3)
      in \<lparr>message = m4, number = (if n \<noteq> 0 then Some n else None)\<rparr>)"

section \<open>Calls on sockets, emitters, promises and timers\<close>

text \<open>
  Sockets, event emitters, promises and timers belong to the runtime.  A call the library
  makes on one of them is recorded, in program order, in a log; what the runtime does
  with the call is not modelled, except that a promise keeps its first settlement, that
  a socket calls only the listeners it still has, and that a timer fires at most once
  and not after \<^verbatim>\<open>clearTimeout\<close>.  Every call returns: in particular an emitter is taken
  to have a listener for \<^verbatim>\<open>error\<close>, without which \<^verbatim>\<open>emit\<close> would throw.
\<close>

datatype emit_data =
    NoData
  | Str string
  | Err string
  | MuxErr UsbmuxdError

datatype effect =
    Emit string emit_data
  | Write buffer
  | End
  | RemoveListener string
  | Resolve
  | ResolveWith "int option"
  | Reject emit_data
  | ClearTimeout
  | TunnelConnect int int
  | TunnelConnectUndefined int

text \<open>
  \<open>ResolveWith None\<close> is \<^verbatim>\<open>resolve(undefined)\<close>, and \<open>TunnelConnectUndefined port\<close> is the call
  \<^verbatim>\<open>connect(undefined, port)\<close>.
\<close>

datatype promise_state = Pending | Fulfilled | FulfilledWith "int option" | Rejected emit_data

fun promise_of :: "effect list \<Rightarrow> promise_state" where
  "promise_of [] = Pending"
| "promise_of (Resolve # es) = Fulfilled"
| "promise_of (ResolveWith v # es) = FulfilledWith v"
| "promise_of (Reject e # es) = Rejected e"
| "promise_of (x # es) = promise_of es"

section \<open>\<^verbatim>\<open>createListener\<close>\<close>

text \<open>
  \<^verbatim>\<open>emit\<close> calls the listeners before it returns, so a listener sees the registry as it is
  at that moment: each entry of the listener's log holds the call and the registry then.
\<close>

record world =
  devices :: registry
  log :: "(effect \<times> registry) list"

definition conn_call :: "effect \<Rightarrow> world \<Rightarrow> world" where
  "conn_call e w = w\<lparr>log := log w @ [(e, devices w)]\<rparr>"

text \<open>The body of \<^verbatim>\<open>Object.keys(devices).forEach\<close> over the keys taken before the loop.\<close>

definition emit_string :: "string option \<Rightarrow> emit_data" where
  "emit_string x = (case x of None \<Rightarrow> NoData | Some t \<Rightarrow> Str t)"

fun detach_each :: "int \<Rightarrow> string list \<Rightarrow> world \<Rightarrow> error + world" where
  "detach_each deviceID [] w = Inr w"
| "detach_each deviceID (key # keys) w =
     (case field_DeviceID (get_property (devices w) key) of
        Inl e \<Rightarrow> Inl e
      | Inr i \<Rightarrow>
          if i = Some deviceID then
            (case field_SerialNumber (get_property (devices w) key) of
               Inl e \<Rightarrow> Inl e
             | Inr u \<Rightarrow>
                 (let w1 = conn_call (Emit ''detached'' (emit_string u)) w;
                      w2 = w1\<lparr>devices := delete_property (devices w1) key\<rparr>
                  in detach_each deviceID keys w2))
          else detach_each deviceID keys w)"

fun listener_onMsgComplete :: "UsbMuxPlist \<Rightarrow> world \<Rightarrow> error + world" where
  "listener_onMsgComplete (Result n) w =
     (if n \<noteq> 0 then
        Inr (conn_call End (conn_call (Emit ''error'' (MuxErr (new_UsbmuxdError ''Listen failed'' n))) w))
      else Inr w)"
| "listener_onMsgComplete (Attached n props) w =
     (let w1 = w\<lparr>devices := set_property (devices w) (SerialNumber props) props\<rparr>
      in Inr (conn_call (Emit ''attached'' (Str (SerialNumber props))) w1))"
| "listener_onMsgComplete (Detached n deviceID) w =
     detach_each deviceID (object_keys (devices w)) w"

text \<open>The messages a listener decodes, handled in order.\<close>

fun listener_run :: "UsbMuxPlist list \<Rightarrow> world \<Rightarrow> error + world" where
  "listener_run [] w = Inr w"
| "listener_run (m # ms) w =
     (case listener_onMsgComplete m w of Inl e \<Rightarrow> Inl e | Inr w1 \<Rightarrow> listener_run ms w1)"

section \<open>\<^verbatim>\<open>connect\<close>: the tunnel connector\<close>

text \<open>
  \<^verbatim>\<open>connect(deviceID, devicePort)\<close> builds the request, makes a parser and writes the request
  on the next tick, before any data event.  Its callback works on the log of the calls on
  the new connection and on the promise.  \<^verbatim>\<open>connect_on_data\<close> is a data event on that
  connection: \<^verbatim>\<open>parse\<close> runs only while it is still a listener of \<^verbatim>\<open>data\<close>.
\<close>

definition connect ::
  "UsbMuxPlist codec \<Rightarrow> int \<Rightarrow> int \<Rightarrow> error + parser_state \<times> effect list" where
  "connect c deviceID devicePort =
     (case protocol_connect c deviceID devicePort of
        Inl e \<Rightarrow> Inl e
      | Inr req \<Rightarrow> Inr (makeParser, [Write req]))"

definition connect_onMsgComplete :: "UsbMuxPlist \<Rightarrow> effect list \<Rightarrow> error + effect list" where
  "connect_onMsgComplete m w =
     (case m of
        Result n \<Rightarrow>
          if n = 0 then Inr (w @ [RemoveListener ''data'', Resolve])
          else Inr (w @ [Reject (MuxErr (new_UsbmuxdError ''Tunnel failed'' n)), End])
      | _ \<Rightarrow> Inr (w @ [Reject (MuxErr (new_UsbmuxdError ''Tunnel failed'' (Number m))), End]))"

definition connect_on_data ::
  "UsbMuxPlist codec \<Rightarrow> parser_state \<Rightarrow> effect list \<Rightarrow> buffer
     \<Rightarrow> (error + parser_state \<times> effect list) option" where
  "connect_on_data c s w data =
     (if RemoveListener ''data'' \<in> set w then Some (Inr (s, w))
      else parse c connect_onMsgComplete s w data)"

section \<open>\<^verbatim>\<open>Relay\<close>\<close>

record RelayOpts =
  timeout :: "int option"
  udid :: "string option"

text \<open>\<^verbatim>\<open>opts = opts || {}\<close>, and \<^verbatim>\<open>x || 1000\<close> for an optional number: 0 is not truthy.\<close>

definition opts_or_empty :: "RelayOpts option \<Rightarrow> RelayOpts" where
  "opts_or_empty opts = (case opts of None \<Rightarrow> \<lparr>timeout = None, udid = None\<rparr> | Some o1 \<Rightarrow> o1)"

definition or_1000 :: "int option \<Rightarrow> int" where
  "or_1000 x = (case x of None \<Rightarrow> 1000 | Some n \<Rightarrow> if n \<noteq> 0 then n else 1000)"

text \<open>
  The fields of a relay, and the delay of the timer that \<^verbatim>\<open>_startListener\<close> arms.  The
  constructor passes \<^verbatim>\<open>opts.timeout || 1000\<close>, and \<^verbatim>\<open>_startListener(timeout)\<close> calls
  \<^verbatim>\<open>setTimeout\<close> with \<^verbatim>\<open>timeout || 1000\<close>.
\<close>

record Relay =
  r_devicePort :: int
  r_relayPort :: int
  r_udid :: "string option"
  r_timer_delay :: int

definition startListener_delay :: "int \<Rightarrow> int" where
  "startListener_delay t = or_1000 (Some t)"

definition new_Relay :: "int \<Rightarrow> int \<Rightarrow> RelayOpts option \<Rightarrow> Relay" where
  "new_Relay devicePort relayPort opts =
     (let o1 = opts_or_empty opts
      in \<lparr>r_devicePort = devicePort, r_relayPort = relayPort, r_udid = udid o1,
          r_timer_delay = startListener_delay (or_1000 (timeout o1))\<rparr>)"

text \<open>
  \<^verbatim>\<open>_handler(conn)\<close> up to the call of \<^verbatim>\<open>connect\<close>: the calls it makes on the relay
  (\<^verbatim>\<open>_emit\<close>), on the local connection (\<^verbatim>\<open>conn.end()\<close>) and the tunnel it asks for.
  \<^verbatim>\<open>Object.keys(devices)[0]\<close> of an object without keys is undefined, and \<^verbatim>\<open>devices[undefined]\<close>
  reads the key \<^verbatim>\<open>undefined\<close>.
\<close>

definition handler :: "Relay \<Rightarrow> registry \<Rightarrow> error + effect list" where
  "handler r devs =
     (if object_keys devs = [] then
        Inr [Emit ''error'' (Err ''No devices connected''), End]
      else if and_string (r_udid r) (\<lambda>p. \<not> truthy_value (get_property devs p)) then
        Inr [Emit ''error'' (Err ''Requested device not connected''), End]
      else
        (let u = or_string (r_udid r)
                   (case object_keys devs of [] \<Rightarrow> ''undefined'' | k # ks \<Rightarrow> k)
         in case field_DeviceID (get_property devs u) of
              Inl e \<Rightarrow> Inl e
            | Inr None \<Rightarrow> Inr [TunnelConnectUndefined (r_devicePort r)]
            | Inr (Some deviceID) \<Rightarrow> Inr [TunnelConnect deviceID (r_devicePort r)]))"

section \<open>\<^verbatim>\<open>findDevice\<close>\<close>

text \<open>
  The state of one call: whether its timer can still fire, and the log of the calls on
  its listener, its timer and its promise.
\<close>

record finder =
  timer_armed :: bool
  calls :: "effect list"

definition findDevice_delay :: "RelayOpts option \<Rightarrow> int" where
  "findDevice_delay opts = or_1000 (timeout (opts_or_empty opts))"

definition findDevice :: finder where
  "findDevice = \<lparr>timer_armed = True, calls = []\<rparr>"

definition on_timeout :: "RelayOpts \<Rightarrow> finder \<Rightarrow> finder" where
  "on_timeout opts f =
     f\<lparr>timer_armed := False,
       calls := calls f @
         [End,
          if truthy_string (udid opts) then Reject (Err ''Requested device not connected'')
          else Reject (Err ''No devices connected'')]\<rparr>"

definition on_attached :: "RelayOpts \<Rightarrow> registry \<Rightarrow> string \<Rightarrow> finder \<Rightarrow> error + finder" where
  "on_attached opts devs u f =
     (if and_string (udid opts) (\<lambda>p. p \<noteq> u) then Inr f
      else
        (case field_DeviceID (get_property devs u) of
           Inl e \<Rightarrow> Inl e
         | Inr i \<Rightarrow>
             Inr (f\<lparr>timer_armed := False,
                    calls := calls f @ [End, ClearTimeout, ResolveWith i]\<rparr>)))"

text \<open>
  What happens to a call of \<^verbatim>\<open>findDevice\<close>: its timer expires, or its listener decodes
  a message.  The listener handles the message, and each \<^verbatim>\<open>attached\<close> it emits reaches
  the handler of \<^verbatim>\<open>findDevice\<close> with the registry of that moment.
\<close>

datatype finder_event = TimerExpires | Message UsbMuxPlist

fun deliver :: "RelayOpts \<Rightarrow> (effect \<times> registry) list \<Rightarrow> finder \<Rightarrow> error + finder" where
  "deliver opts [] f = Inr f"
| "deliver opts ((Emit ev (Str u), devs) # es) f =
     (if ev = ''attached'' then
        (case on_attached opts devs u f of Inl e \<Rightarrow> Inl e | Inr f1 \<Rightarrow> deliver opts es f1)
      else deliver opts es f)"
| "deliver opts (x # es) f = deliver opts es f"

fun finder_run :: "RelayOpts \<Rightarrow> finder_event list \<Rightarrow> world \<Rightarrow> finder \<Rightarrow> error + world \<times> finder" where
  "finder_run opts [] w f = Inr (w, f)"
| "finder_run opts (TimerExpires # evs) w f =
     finder_run opts evs w (if timer_armed f then on_timeout opts f else f)"
| "finder_run opts (Message m # evs) w f =
     (case listener_onMsgComplete m w of
        Inl e \<Rightarrow> Inl e
      | Inr w1 \<Rightarrow>
          (case deliver opts (drop (length (log w)) (log w1)) f of
             Inl e \<Rightarrow> Inl e
           | Inr f1 \<Rightarrow> finder_run opts evs w1 f1))"

text \<open>
  The test of line 505: an \<^verbatim>\<open>attached\<close> notification is ignored when a UDID is pinned and
  the notification is for another one.  \<open>qualifies\<close> says that a message makes the
  listener emit a notification that is not ignored; \<open>ignored\<close> says that a call recorded
  by the listener is not such a notification.
\<close>

definition qualifies :: "RelayOpts \<Rightarrow> UsbMuxPlist \<Rightarrow> bool" where
  "qualifies opts m =
     (case m of
        Attached n props \<Rightarrow> \<not> and_string (udid opts) (\<lambda>p. p \<noteq> SerialNumber props)
      | _ \<Rightarrow> False)"

definition ignored :: "RelayOpts \<Rightarrow> effect \<times> registry \<Rightarrow> bool" where
  "ignored opts x =
     (case fst x of
        Emit ev (Str u) \<Rightarrow> ev \<noteq> ''attached'' \<or> and_string (udid opts) (\<lambda>p. p \<noteq> u)
      | _ \<Rightarrow> True)"

section \<open>Values for the examples\<close>

text \<open>
  The examples below need codecs to compute with.  \<open>text_codec\<close> writes a string value as
  its characters, one byte for each, and reads a text back as that string value; an empty
  text is not a document.  \<open>result_codec\<close> reads two texts, as the \<^verbatim>\<open>Result\<close> messages with
  the codes 0 and 3.
\<close>

definition text_codec :: "plist_value codec" where
  "text_codec =
     \<lparr>plist_build = (\<lambda>v. case v of PString t \<Rightarrow> t | _ \<Rightarrow> ''dict''),
      from_string = map of_char,
      to_string = map (\<lambda>b. char_of (unat b)),
      plist_parse = (\<lambda>t. if t = [] then Inl PlistError else Inr (PString t))\<rparr>"

definition result_codec :: "UsbMuxPlist codec" where
  "result_codec =
     \<lparr>plist_build = (\<lambda>v. ''dict''),
      from_string = map of_char,
      to_string = map (\<lambda>b. char_of (unat b)),
      plist_parse = (\<lambda>t. if t = ''ok'' then Inr (Result 0)
                         else if t = ''no'' then Inr (Result 3) else Inl PlistError)\<rparr>"

text \<open>
  \<open>connect_codec\<close> writes a request that has the fields \<^verbatim>\<open>DeviceID\<close> and \<^verbatim>\<open>PortNumber\<close> as the
  two numbers in decimal with a space between them, and reads such a text back as the
  \<^verbatim>\<open>Connect\<close> request with these two numbers.
\<close>

definition connect_codec :: "plist_value codec" where
  "connect_codec =
     \<lparr>plist_build =
        (\<lambda>v. case (plist_field v ''DeviceID'', plist_field v ''PortNumber'') of
               (Some (PNumber d), Some (PNumber p)) \<Rightarrow> show_int d @ '' '' @ show_int p
             | _ \<Rightarrow> ''dict''),
      from_string = map of_char,
      to_string = map (\<lambda>b. char_of (unat b)),
      plist_parse =
        (\<lambda>t. let a = takeWhile (\<lambda>ch. ch \<noteq> CHR '' '') t; b = drop (length a + 1) t
             in if canonical_digits a \<and> canonical_digits b then
                  Inr (PDict
                    [(''MessageType'', PString ''Connect''),
                     (''ClientVersionString'', PString ''node-usbmux''),
                     (''ProgName'', PString ''node-usbmux''),
                     (''DeviceID'', PNumber (int (digits_value a))),
                     (''PortNumber'', PNumber (int (digits_value b)))])
                else Inl PlistError)\<rparr>"

definition device_ABC :: Device where
  "device_ABC = \<lparr>ConnectionType = ''USB'', DeviceID = 1, LocationID = 0, ProductID = 4776,
                  SerialNumber = ''ABC''\<rparr>"

definition device_7 :: Device where
  "device_7 = \<lparr>ConnectionType = ''USB'', DeviceID = 2, LocationID = 0, ProductID = 4776,
                SerialNumber = ''7''\<rparr>"

definition device_proto :: Device where
  "device_proto = \<lparr>ConnectionType = ''USB'', DeviceID = 4, LocationID = 0, ProductID = 4776,
                    SerialNumber = ''__proto__''\<rparr>"

definition device_constructor :: Device where
  "device_constructor = \<lparr>ConnectionType = ''USB'', DeviceID = 5, LocationID = 0, ProductID = 4776,
                          SerialNumber = ''constructor''\<rparr>"

definition device_DEF :: Device where
  "device_DEF = \<lparr>ConnectionType = ''USB'', DeviceID = 3, LocationID = 0, ProductID = 4776,
                  SerialNumber = ''DEF''\<rparr>"

definition empty_world :: world where
  "empty_world = \<lparr>devices = \<lparr>own = DAList.empty, proto = None\<rparr>, log = []\<rparr>"

definition relay_22 :: Relay where
  "relay_22 = new_Relay 22 2222 None"

definition relay_DEF :: Relay where
  "relay_DEF = new_Relay 22 2222 (Some \<lparr>timeout = None, udid = Some ''DEF''\<rparr>)"

section \<open>Buffers: reading back what was written\<close>

lemma subarray_from_append16: "length hdr = 16 \<Longrightarrow> subarray_from (hdr @ rest) 16 = rest"
  by (simp add: subarray_from_def subarray_def clamp_index_def)

lemma subarray_prefix: "subarray (p @ rest) 0 (int (length p)) = p"
  by (simp add: subarray_def clamp_index_def)

lemma subarray_from_suffix: "subarray_from (p @ rest) (int (length p)) = rest"
  by (simp add: subarray_from_def subarray_def clamp_index_def)

lemma readUInt32LE_append: "4 \<le> length hdr \<Longrightarrow> readUInt32LE (hdr @ rest) 0 = readUInt32LE hdr 0"
  by (auto simp add: readUInt32LE_def nth_append)

lemma div_mod_step: "(q::int) = 256 * (q div 256) + q mod 256"
  by (rule mult_div_mod_eq [symmetric])

lemma le32_arith:
  fixes v :: int
  assumes "0 \<le> v" "v < 4294967296"
  shows "v mod 256 + v div 256 mod 256 * 256 + v div 65536 mod 256 * 65536
          + v div 16777216 mod 256 * 16777216 = v"
proof -
  define q1 q2 q3 where "q1 = v div 256" and "q2 = q1 div 256" and "q3 = q2 div 256"
  define r0 r1 r2 where "r0 = v mod 256" and "r1 = q1 mod 256" and "r2 = q2 mod 256"
  have e2: "q2 = v div 65536" unfolding q2_def q1_def
    using zdiv_zmult2_eq [of 256 v 256] by simp
  have e3: "q3 = v div 16777216" unfolding q3_def e2
    using zdiv_zmult2_eq [of 256 v 65536] by simp
  have s0: "v = 256 * q1 + r0" unfolding q1_def r0_def by (rule div_mod_step)
  have s1: "q1 = 256 * q2 + r1" unfolding q2_def r1_def by (rule div_mod_step)
  have s2: "q2 = 256 * q3 + r2" unfolding q3_def r2_def by (rule div_mod_step)
  have "v div 16777216 \<le> 4294967295 div 16777216"
    by (rule zdiv_mono1) (use assms in simp_all)
  then have "q3 < 256" unfolding e3 by simp
  moreover have "0 \<le> q3" unfolding e3 using assms(1) by (simp add: pos_imp_zdiv_nonneg_iff)
  ultimately have m3: "q3 mod 256 = q3" by simp
  have "r0 + r1 * 256 + r2 * 65536 + q3 * 16777216 = v"
    using s0 s1 s2 by linarith
  then show ?thesis
    unfolding r0_def r1_def r2_def q1_def [symmetric] e2 [symmetric] e3 [symmetric] m3 .
qed

lemma uint_byte: "uint (word_of_int x :: byte) = x mod 256"
  by (simp add: uint_word_of_int)

lemma le32_value:
  assumes "0 \<le> v" "v < 2 ^ 32"
  shows "uint (word_of_int v :: byte) + uint (word_of_int (v div 2 ^ 8) :: byte) * 2 ^ 8
       + uint (word_of_int (v div 2 ^ 16) :: byte) * 2 ^ 16
       + uint (word_of_int (v div 2 ^ 24) :: byte) * 2 ^ 24 = v"
proof -
  have p: "(2::int) ^ 8 = 256" "(2::int) ^ 16 = 65536" "(2::int) ^ 24 = 16777216" by simp_all
  have "v < 4294967296" using assms(2) by simp
  from le32_arith [OF assms(1) this] show ?thesis
    unfolding uint_byte p .
qed

lemma writeUInt32LE_length: "writeUInt32LE buf v off = Inr b \<Longrightarrow> length b = length buf"
  by (auto simp add: writeUInt32LE_def split: if_splits)

lemma writeUInt32LE_Inr:
  assumes "writeUInt32LE buf v off = Inr b"
  shows "0 \<le> v" "v < 2 ^ 32" "off + 4 \<le> length buf"
    "b = buf[off := word_of_int v, off + 1 := word_of_int (v div 2 ^ 8),
      off + 2 := word_of_int (v div 2 ^ 16), off + 3 := word_of_int (v div 2 ^ 24)]"
  using assms by (auto simp add: writeUInt32LE_def split: if_splits)

lemma read_write_same:
  assumes "writeUInt32LE buf v off = Inr b"
  shows "readUInt32LE b off = Inr v"
proof -
  note r = writeUInt32LE_Inr [OF assms]
  have l: "\<not> length b < off + 4"
    using r(3) writeUInt32LE_length [OF assms] by simp
  have n: "b ! off = word_of_int v" "b ! (off + 1) = word_of_int (v div 2 ^ 8)"
    "b ! (off + 2) = word_of_int (v div 2 ^ 16)" "b ! (off + 3) = word_of_int (v div 2 ^ 24)"
    using r(3) unfolding r(4) by simp_all
  show ?thesis
    unfolding readUInt32LE_def n using l le32_value [OF r(1,2)] by (simp only: if_False)
qed

lemma read_write_other:
  assumes "writeUInt32LE buf v off2 = Inr b" "off + 4 \<le> off2"
  shows "readUInt32LE b off = readUInt32LE buf off"
proof -
  note r = writeUInt32LE_Inr [OF assms(1)]
  have n: "b ! off = buf ! off" "b ! (off + 1) = buf ! (off + 1)"
    "b ! (off + 2) = buf ! (off + 2)" "b ! (off + 3) = buf ! (off + 3)"
    using assms(2) unfolding r(4) by simp_all
  show ?thesis
    unfolding readUInt32LE_def n writeUInt32LE_length [OF assms(1)] ..
qed

section \<open>Frames\<close>

lemma pack_shape:
  assumes "pack c v = Inr b"
  shows "\<exists>hdr. b = hdr @ from_string c (plist_build c v)
           \<and> is_header hdr (length (from_string c (plist_build c v)))"
proof -
  let ?p = "from_string c (plist_build c v)"
  let ?n = "int (length ?p) + 16"
  from assms obtain h1 h2 h3 h4 where
    w: "writeUInt32LE (replicate 16 0) ?n 0 = Inr h1" "writeUInt32LE h1 1 4 = Inr h2"
       "writeUInt32LE h2 8 8 = Inr h3" "writeUInt32LE h3 1 12 = Inr h4" and b: "b = h4 @ ?p"
    by (auto simp add: pack_def Let_def split: sum.splits)
  have l: "length h4 = 16"
    using w by (simp add: writeUInt32LE_length)
  have "readUInt32LE h4 0 = readUInt32LE h1 0"
    using w(2-4) by (simp add: read_write_other)
  also have "\<dots> = Inr ?n"
    using w(1) by (rule read_write_same)
  finally show ?thesis
    using b l by (auto simp add: is_header_def)
qed

lemma pack_ok:
  assumes "length (from_string c (plist_build c v)) + 16 < 2 ^ 32"
  shows "\<exists>b. pack c v = Inr b"
  using assms by (simp add: pack_def Let_def writeUInt32LE_def)

section \<open>The parser on whole frames\<close>

lemma parse_header_frame:
  assumes "is_header hdr n" "len s = 0" "rest \<noteq> []"
  shows "parse_header s (hdr @ rest) = Inr (s\<lparr>len := int n, msg := []\<rparr>, Some rest)"
  using assms
  by (simp add: parse_header_def is_header_def readUInt32LE_append subarray_from_append16)

lemma parse_body_complete:
  assumes "len s = int (length p)" "plist_parse c (msg s @ to_string c p) = Inr m"
    "onComplete m w = Inr w1"
  shows "parse_body c onComplete s w (p @ rest)
           = Inr (\<lparr>len = 0, msg = msg s @ to_string c p\<rparr>, w1, rest)"
  using assms by (simp add: parse_body_def subarray_prefix subarray_from_suffix Let_def)

lemma parse_frame_then:
  assumes "is_header hdr (length p)" "len s = 0" "p \<noteq> []"
    "plist_parse c (to_string c p) = Inr m" "onComplete m w = Inr w1"
  shows "parse c onComplete s w (hdr @ p @ rest) =
    (if rest \<noteq> [] then parse c onComplete \<lparr>len = 0, msg = to_string c p\<rparr> w1 rest
     else Some (Inr (\<lparr>len = 0, msg = to_string c p\<rparr>, w1)))"
proof -
  have h: "parse_header s (hdr @ p @ rest)
      = Inr (s\<lparr>len := int (length p), msg := []\<rparr>, Some (p @ rest))"
    using assms by (simp add: parse_header_frame)
  have b: "parse_body c onComplete (s\<lparr>len := int (length p), msg := []\<rparr>) w (p @ rest)
      = Inr (\<lparr>len = 0, msg = to_string c p\<rparr>, w1, rest)"
    using assms by (simp add: parse_body_complete)
  show ?thesis
    by (subst parse.simps) (simp add: h b)
qed

lemma parse_frame:
  assumes "is_header hdr (length p)" "len s = 0" "p \<noteq> []"
    "plist_parse c (to_string c p) = Inr m" "onComplete m w = Inr w1"
  shows "parse c onComplete s w (hdr @ p) = Some (Inr (\<lparr>len = 0, msg = to_string c p\<rparr>, w1))"
  using parse_frame_then [where onComplete = onComplete and m = m and w = w and rest = "[]", OF assms]
  by simp

lemma parse_two_frames:
  assumes "is_header hdr1 (length p1)" "is_header hdr2 (length p2)" "p1 \<noteq> []" "p2 \<noteq> []"
    "plist_parse c (to_string c p1) = Inr d1" "plist_parse c (to_string c p2) = Inr d2"
    "onComplete d1 w = Inr w1" "onComplete d2 w1 = Inr w2" "len s = 0"
  shows "parse c onComplete s w ((hdr1 @ p1) @ (hdr2 @ p2))
           = Some (Inr (\<lparr>len = 0, msg = to_string c p2\<rparr>, w2))"
proof -
  have "parse c onComplete s w (hdr1 @ p1 @ (hdr2 @ p2))
      = parse c onComplete \<lparr>len = 0, msg = to_string c p1\<rparr> w1 (hdr2 @ p2)"
    using assms(2)
    by (subst parse_frame_then [where onComplete = onComplete and m = d1 and w = w and ?w1.0 = w1])
      (use assms in \<open>auto simp add: is_header_def\<close>)
  also have "\<dots> = Some (Inr (\<lparr>len = 0, msg = to_string c p2\<rparr>, w2))"
    by (rule parse_frame [where m = d2]) (use assms in simp_all)
  finally show ?thesis by simp
qed

text \<open>
  Claim C2.  Two messages built by \<^verbatim>\<open>pack\<close>, fed to a new parser as one chunk: the callback
  is called twice, with the decoded first message and then with the decoded second one.
  The codec is the real one where it writes a document that is not empty and reads its
  own documents back.
\<close>

theorem two_frames_one_chunk:
  assumes "pack c v1 = Inr b1" and "pack c v2 = Inr b2"
    and "from_string c (plist_build c v1) \<noteq> []" and "from_string c (plist_build c v2) \<noteq> []"
    and "plist_parse c (to_string c (from_string c (plist_build c v1))) = Inr d1"
    and "plist_parse c (to_string c (from_string c (plist_build c v2))) = Inr d2"
  shows "parse c record_call makeParser [] (b1 @ b2)
           = Some (Inr (\<lparr>len = 0, msg = to_string c (from_string c (plist_build c v2))\<rparr>, [d1, d2]))"
proof -
  from pack_shape [OF assms(1)] obtain hdr1 where
    1: "b1 = hdr1 @ from_string c (plist_build c v1)"
       "is_header hdr1 (length (from_string c (plist_build c v1)))" by blast
  from pack_shape [OF assms(2)] obtain hdr2 where
    2: "b2 = hdr2 @ from_string c (plist_build c v2)"
       "is_header hdr2 (length (from_string c (plist_build c v2)))" by blast
  show ?thesis
    unfolding 1(1) 2(1)
    by (rule parse_two_frames [where ?d1.0 = d1 and ?d2.0 = d2 and ?w1.0 = "[d1]"])
      (use 1(2) 2(2) assms in \<open>simp_all add: record_call_def makeParser_def\<close>)
qed

theorem two_frames_one_chunk_witness:
  "pack text_codec (PString ''ab'') = Inr [18, 0, 0, 0, 1, 0, 0, 0, 8, 0, 0, 0, 1, 0, 0, 0, 97, 98]
   \<and> pack text_codec (PString ''c'') = Inr [17, 0, 0, 0, 1, 0, 0, 0, 8, 0, 0, 0, 1, 0, 0, 0, 99]
   \<and> parse text_codec record_call makeParser []
        ([18, 0, 0, 0, 1, 0, 0, 0, 8, 0, 0, 0, 1, 0, 0, 0, 97, 98]
          @ [17, 0, 0, 0, 1, 0, 0, 0, 8, 0, 0, 0, 1, 0, 0, 0, 99])
       = Some (Inr (\<lparr>len = 0, msg = ''c''\<rparr>, [PString ''ab'', PString ''c'']))"
proof -
  have 1: "pack text_codec (PString ''ab'') = Inr [18, 0, 0, 0, 1, 0, 0, 0, 8, 0, 0, 0, 1, 0, 0, 0, 97, 98]"
    by code_simp
  have 2: "pack text_codec (PString ''c'') = Inr [17, 0, 0, 0, 1, 0, 0, 0, 8, 0, 0, 0, 1, 0, 0, 0, 99]"
    by code_simp
  have 3: "from_string text_codec (plist_build text_codec (PString ''ab'')) \<noteq> []"
    by code_simp
  have 4: "from_string text_codec (plist_build text_codec (PString ''c'')) \<noteq> []"
    by code_simp
  have 5: "plist_parse text_codec (to_string text_codec (from_string text_codec
      (plist_build text_codec (PString ''ab'')))) = Inr (PString ''ab'')"
    by code_simp
  have 6: "plist_parse text_codec (to_string text_codec (from_string text_codec
      (plist_build text_codec (PString ''c'')))) = Inr (PString ''c'')"
    by code_simp
  have 7: "to_string text_codec (from_string text_codec (plist_build text_codec (PString ''c''))) = ''c''"
    by code_simp
  show ?thesis
    using two_frames_one_chunk [OF 1 2 3 4 5 6] 1 2 unfolding 7 by simp
qed

section \<open>The parser on a split body\<close>

text \<open>
  When the first chunk holds the whole header, the chunks that follow may cut the payload
  anywhere: the callback is called once, when the last byte has come.  The text it decodes
  is the concatenation of the texts of the pieces, each piece converted on its own.
\<close>

lemma subarray_whole: "int (length d) \<le> n \<Longrightarrow> subarray d 0 n = d"
  by (simp add: subarray_def clamp_index_def)

lemma subarray_from_end: "subarray_from d (int (length d)) = []"
  by (simp add: subarray_from_def subarray_def clamp_index_def)

lemma parse_body_partial:
  assumes "int (length d) < len s"
  shows "parse_body c onComplete s w d
      = Inr (s\<lparr>msg := msg s @ to_string c d, len := len s - int (length d)\<rparr>, w, [])"
  using assms by (simp add: parse_body_def Let_def subarray_whole subarray_from_end)

lemma parse_body_piece:
  assumes "int (length d) < len s"
  shows "parse c onComplete s w d
           = Some (Inr (s\<lparr>msg := msg s @ to_string c d, len := len s - int (length d)\<rparr>, w))"
proof -
  have h: "parse_header s d = Inr (s, Some d)"
    using assms by (simp add: parse_header_def)
  note b = parse_body_partial [OF assms, of c onComplete w]
  show ?thesis
    by (subst parse.simps) (simp add: h b)
qed

lemma parse_body_last:
  assumes "len s = int (length d)" "d \<noteq> []"
    "plist_parse c (msg s @ to_string c d) = Inr m" "onComplete m w = Inr w1"
  shows "parse c onComplete s w d = Some (Inr (\<lparr>len = 0, msg = msg s @ to_string c d\<rparr>, w1))"
proof -
  have h: "parse_header s d = Inr (s, Some d)"
    using assms by (simp add: parse_header_def)
  have b: "parse_body c onComplete s w d = Inr (\<lparr>len = 0, msg = msg s @ to_string c d\<rparr>, w1, [])"
    using parse_body_complete [where onComplete = onComplete and m = m and w = w and rest = "[]",
        OF assms(1,3,4)] by simp
  show ?thesis
    by (subst parse.simps) (simp add: h b)
qed

lemma feed_body_pieces:
  assumes "ds \<noteq> []" "list_all (\<lambda>d. d \<noteq> []) ds" "len s = int (length (concat ds))"
    "plist_parse c (msg s @ concat (map (to_string c) ds)) = Inr m" "onComplete m w = Inr w1"
  shows "feed c onComplete s w ds
           = Some (Inr (\<lparr>len = 0, msg = msg s @ concat (map (to_string c) ds)\<rparr>, w1))"
  using assms
proof (induction ds arbitrary: s)
  case Nil
  then show ?case by simp
next
  case (Cons d ds)
  show ?case
  proof (cases "ds = []")
    case True
    with Cons.prems have "parse c onComplete s w d
        = Some (Inr (\<lparr>len = 0, msg = msg s @ to_string c d\<rparr>, w1))"
      by (intro parse_body_last [where m = m]) simp_all
    with True show ?thesis by simp
  next
    case False
    let ?s1 = "s\<lparr>msg := msg s @ to_string c d, len := len s - int (length d)\<rparr>"
    from False Cons.prems(2) have "concat ds \<noteq> []"
      by (cases ds) auto
    with Cons.prems(3) have "int (length d) < len s" by simp
    then have p: "parse c onComplete s w d = Some (Inr (?s1, w))"
      by (rule parse_body_piece)
    have "feed c onComplete ?s1 w ds
        = Some (Inr (\<lparr>len = 0, msg = msg ?s1 @ concat (map (to_string c) ds)\<rparr>, w1))"
      by (rule Cons.IH) (use False Cons.prems in simp_all)
    with p show ?thesis by simp
  qed
qed

lemma feed_whole_header:
  assumes "is_header hdr (length (p0 @ concat ds))" "list_all (\<lambda>d. d \<noteq> []) ds"
    "p0 @ concat ds \<noteq> []"
    "plist_parse c ((if p0 = [] then [] else to_string c p0) @ concat (map (to_string c) ds)) = Inr m"
    "onComplete m w = Inr w1"
  shows "feed c onComplete makeParser w ((hdr @ p0) # ds)
     = Some (Inr (\<lparr>len = 0,
           msg = (if p0 = [] then [] else to_string c p0) @ concat (map (to_string c) ds)\<rparr>, w1))"
proof (cases "ds = []")
  case True
  with assms have "parse c onComplete makeParser w (hdr @ p0)
      = Some (Inr (\<lparr>len = 0, msg = to_string c p0\<rparr>, w1))"
    by (intro parse_frame [where m = m]) (auto simp add: makeParser_def)
  with True assms(3) show ?thesis by simp
next
  case False
  with assms(2) have ne: "concat ds \<noteq> []" by (cases ds) auto
  let ?s1 = "\<lparr>len = int (length (concat ds)), msg = (if p0 = [] then [] else to_string c p0)\<rparr>"
  have first: "parse c onComplete makeParser w (hdr @ p0) = Some (Inr (?s1, w))"
  proof (cases "p0 = []")
    case True
    have "parse_header makeParser hdr = Inr (?s1, None)"
      using assms(1) True
      by (simp add: parse_header_def makeParser_def is_header_def subarray_from_def subarray_def
          clamp_index_def)
    then show ?thesis using True
      by (subst parse.simps) simp
  next
    case False
    define n where "n = int (length (p0 @ concat ds))"
    let ?s0 = "makeParser\<lparr>len := n, msg := []\<rparr>"
    have h: "parse_header makeParser (hdr @ p0) = Inr (?s0, Some p0)"
      unfolding n_def using assms(1) False
      by (intro parse_header_frame) (simp_all add: makeParser_def)
    have "0 < length (concat ds)" using ne by blast
    then have "int (length p0) < len ?s0" by (simp add: n_def)
    then have b: "parse_body c onComplete ?s0 w p0
        = Inr (?s0\<lparr>msg := msg ?s0 @ to_string c p0, len := len ?s0 - int (length p0)\<rparr>, w, [])"
      by (rule parse_body_partial)
    have "parse c onComplete makeParser w (hdr @ p0)
        = Some (Inr (?s0\<lparr>msg := msg ?s0 @ to_string c p0, len := len ?s0 - int (length p0)\<rparr>, w))"
      by (subst parse.simps) (simp add: h b)
    moreover have "?s0\<lparr>msg := msg ?s0 @ to_string c p0, len := len ?s0 - int (length p0)\<rparr> = ?s1"
      using False by (simp add: makeParser_def n_def)
    ultimately show ?thesis by simp
  qed
  have "feed c onComplete ?s1 w ds
      = Some (Inr (\<lparr>len = 0, msg = msg ?s1 @ concat (map (to_string c) ds)\<rparr>, w1))"
    by (rule feed_body_pieces [where m = m]) (use False assms in simp_all)
  with first show ?thesis by simp
qed

section \<open>The parser on a split header\<close>

lemmas parser_eval = parse.simps parse_header_def parse_body_def makeParser_def readUInt32LE_def
  subarray_from_def subarray_def clamp_index_def text_codec_def record_call_def

lemma one_byte_chunk_throws:
  assumes "len s = 0"
  shows "parse c onComplete s w [b] = Some (Inl RangeError)"
  by (subst parse.simps) (simp add: parse_header_def assms readUInt32LE_def)

text \<open>
  Claim C1.  The bytes of a packed message, fed one byte at a time: the first call of
  \<^verbatim>\<open>parse\<close> reads a 32-bit length from a chunk of one byte, \<^verbatim>\<open>readUInt32LE\<close> throws and the
  callback is never called.
\<close>

theorem parse_one_byte_chunks:
  "pack text_codec (PString ''ab'') = Inr [18, 0, 0, 0, 1, 0, 0, 0, 8, 0, 0, 0, 1, 0, 0, 0, 97, 98]
   \<and> feed text_codec record_call makeParser []
        (map (\<lambda>b. [b]) [18, 0, 0, 0, 1, 0, 0, 0, 8, 0, 0, 0, 1, 0, 0, 0, 97, 98])
       = Some (Inl RangeError)"
proof -
  have "pack text_codec (PString ''ab'') = Inr [18, 0, 0, 0, 1, 0, 0, 0, 8, 0, 0, 0, 1, 0, 0, 0, 97, 98]"
    by code_simp
  moreover have "feed text_codec record_call makeParser []
        (map (\<lambda>b. [b]) [18, 0, 0, 0, 1, 0, 0, 0, 8, 0, 0, 0, 1, 0, 0, 0, 97, 98])
       = Some (Inl RangeError)"
    by (simp add: parser_eval)
  ultimately show ?thesis by (rule conjI)
qed

text \<open>
  A first chunk of 8 bytes does not throw.  The parser takes the length from it, drops
  the chunk, and reads the rest of the header as payload: \<^verbatim>\<open>plist.parse\<close> is given two bytes
  of the header as the document, and what is left of the second chunk, the real payload at
  its end, is read as the next header.  \<open>text_codec\<close> reads every text that is not empty, so
  here the callback gets these two bytes as its message.
\<close>

lemma parse_split_header:
  "feed text_codec record_call makeParser []
        [[18, 0, 0, 0, 1, 0, 0, 0], [8, 0, 0, 0, 1, 0, 0, 0, 97, 98]]
       = Some (Inr (\<lparr>len = 65520, msg = []\<rparr>, [PString [CHR 0x08, CHR 0x00]]))"
  by (simp add: parser_eval) code_simp

section \<open>\<^verbatim>\<open>byteSwap16\<close>\<close>

lemma mask255: "(0xff :: 32 word) = mask 8"
  by (simp add: mask_eq_exp_minus_1)

lemma byteSwap16_bits:
  "byteSwap16 val = push_bit 8 (take_bit 8 val) OR take_bit 8 (drop_bit 8 val)"
proof (rule bit_eqI)
  fix n
  show "bit (byteSwap16 val) n = bit (push_bit 8 (take_bit 8 val) OR take_bit 8 (drop_bit 8 val)) n"
    unfolding byteSwap16_def Let_def mask255
    by (auto simp add: bit_simps min_def)
qed

lemma byteSwap16_arith: "byteSwap16 val = (val mod 256) * 256 + (val div 256) mod 256"
proof -
  have "push_bit 8 (take_bit 8 val) AND take_bit 8 (drop_bit 8 val) = 0"
    by (rule bit_eqI) (auto simp add: bit_simps)
  then have "push_bit 8 (take_bit 8 val) OR take_bit 8 (drop_bit 8 val)
      = push_bit 8 (take_bit 8 val) + take_bit 8 (drop_bit 8 val)"
    by (rule disjunctive_add_eq_or [symmetric])
  then show ?thesis
    unfolding byteSwap16_bits by (simp add: push_bit_eq_mult take_bit_eq_mod drop_bit_eq_div)
qed

lemma byteSwap16_range: "0 \<le> byteSwap16 val \<and> byteSwap16 val < 2 ^ 16"
proof -
  have "0 \<le> val mod 256" "val mod 256 < 256" "0 \<le> val div 256 mod 256" "val div 256 mod 256 < 256"
    by simp_all
  then show ?thesis unfolding byteSwap16_arith by simp
qed

lemma byteSwap16_twice: "byteSwap16 (byteSwap16 v) = take_bit 16 v"
proof -
  have "bit (byteSwap16 (byteSwap16 v)) n = bit (take_bit 16 v) n" for n
    unfolding byteSwap16_bits by (auto simp add: bit_simps)
  then show ?thesis
    by (simp add: bit_eq_iff)
qed

text \<open>
  Claim C9.  On a 16-bit value \<^verbatim>\<open>byteSwap16\<close> is its own inverse, and its result is a 16-bit
  value again.
\<close>

theorem byteSwap16_involution:
  assumes "0 \<le> v" and "v < 2 ^ 16"
  shows "byteSwap16 (byteSwap16 v) = v \<and> 0 \<le> byteSwap16 v \<and> byteSwap16 v < 2 ^ 16"
  using assms byteSwap16_range [of v] by (simp add: byteSwap16_twice take_bit_int_eq_self)

theorem byteSwap16_involution_witness:
  "(0::int) \<le> 8080 \<and> (8080::int) < 2 ^ 16 \<and> byteSwap16 (byteSwap16 8080) = 8080
   \<and> byteSwap16 8080 = 36895"
proof -
  have "byteSwap16 8080 = 36895" by (simp add: byteSwap16_arith)
  then show ?thesis using byteSwap16_involution [of 8080] by simp
qed

lemma byteSwap16_bytes:
  assumes "0 \<le> port" "port < 2 ^ 16"
  shows "byteSwap16 port mod 256 = port div 256" "byteSwap16 port div 256 = port mod 256"
proof -
  define lo where "lo = port mod 256"
  define hi where "hi = port div 256"
  have hi: "0 \<le> hi" "hi < 256"
    using assms by (simp_all add: hi_def)
  have lo: "0 \<le> lo" "lo < 256"
    by (simp_all add: lo_def)
  have v: "byteSwap16 port = lo * 256 + hi"
    using hi by (simp add: byteSwap16_arith lo_def hi_def)
  show "byteSwap16 port mod 256 = port div 256"
    unfolding v using hi by (simp add: hi_def)
  show "byteSwap16 port div 256 = port mod 256"
    unfolding v using hi by (simp add: lo_def)
qed

lemma connect_payload_fields:
  "plist_field (connect_payload deviceID port) ''MessageType'' = Some (PString ''Connect'')"
  "plist_field (connect_payload deviceID port) ''DeviceID'' = Some (PNumber deviceID)"
  "plist_field (connect_payload deviceID port) ''PortNumber'' = Some (PNumber (byteSwap16 port))"
  by (simp_all add: connect_payload_def plist_field_def)

text \<open>
  Claim C5.  \<^verbatim>\<open>connect(deviceID, port)\<close> returns a frame: a 16-byte header that announces the
  length of the payload, and then the payload, which is the document of the request.  A
  parser that is given the frame calls back once, with the request read from that
  document, and the \<^verbatim>\<open>PortNumber\<close> of this request is \<^verbatim>\<open>byteSwap16(port)\<close>: the low byte of
  the port counts 256 and the next byte counts 1.  For a port of 16 bits the two bytes of
  this number, least significant first as the header writes its numbers, are the two
  bytes of the port, most significant first.  The codec is the real one where it writes a
  document that is not empty and fits the length field, and reads its own document back.
\<close>

theorem connect_frame_port:
  fixes c :: "plist_value codec"
  assumes "from_string c (plist_build c (connect_payload deviceID port)) \<noteq> []"
    and "length (from_string c (plist_build c (connect_payload deviceID port))) + 16 < 2 ^ 32"
    and "plist_parse c (to_string c (from_string c (plist_build c (connect_payload deviceID port))))
           = Inr (connect_payload deviceID port)"
  shows "\<exists>hdr m n.
       protocol_connect c deviceID port
         = Inr (hdr @ from_string c (plist_build c (connect_payload deviceID port)))
     \<and> is_header hdr (length (from_string c (plist_build c (connect_payload deviceID port))))
     \<and> parse c record_call makeParser []
           (hdr @ from_string c (plist_build c (connect_payload deviceID port)))
         = Some (Inr (\<lparr>len = 0,
               msg = to_string c (from_string c (plist_build c (connect_payload deviceID port)))\<rparr>,
             [m]))
     \<and> plist_field m ''MessageType'' = Some (PString ''Connect'')
     \<and> plist_field m ''DeviceID'' = Some (PNumber deviceID)
     \<and> plist_field m ''PortNumber'' = Some (PNumber n)
     \<and> n = byteSwap16 port
     \<and> n = (port mod 256) * 256 + (port div 256) mod 256
     \<and> (0 \<le> port \<and> port < 2 ^ 16 \<longrightarrow> n mod 256 = port div 256 \<and> n div 256 = port mod 256)"
proof -
  define p where "p = from_string c (plist_build c (connect_payload deviceID port))"
  from pack_ok [OF assms(2)] obtain b where b: "pack c (connect_payload deviceID port) = Inr b"
    by blast
  from pack_shape [OF b] obtain hdr where
    h: "b = hdr @ p" "is_header hdr (length p)"
    unfolding p_def by blast
  have r: "record_call (connect_payload deviceID port) [] = Inr [connect_payload deviceID port]"
    by (simp add: record_call_def)
  have "parse c record_call makeParser [] (hdr @ p)
      = Some (Inr (\<lparr>len = 0, msg = to_string c p\<rparr>, [connect_payload deviceID port]))"
    by (rule parse_frame [where m = "connect_payload deviceID port"])
      (use h(2) assms r in \<open>simp_all add: p_def makeParser_def\<close>)
  moreover have "protocol_connect c deviceID port = Inr (hdr @ p)"
    using b h(1) by (simp add: protocol_connect_def)
  moreover have "0 \<le> port \<and> port < 2 ^ 16 \<longrightarrow>
      byteSwap16 port mod 256 = port div 256 \<and> byteSwap16 port div 256 = port mod 256"
    using byteSwap16_bytes [of port] by blast
  ultimately show ?thesis
    using h(2) connect_payload_fields [of deviceID port] byteSwap16_arith [of port]
    unfolding p_def by blast
qed

lemma show_nat_digit: "n < 10 \<Longrightarrow> show_nat n = [char_of (48 + n)]"
  by (subst show_nat.simps) simp

lemma show_nat_more: "10 \<le> n \<Longrightarrow> show_nat n = show_nat (n div 10) @ [char_of (48 + n mod 10)]"
  by (subst show_nat.simps) simp

theorem connect_frame_port_witness:
  "from_string connect_codec (plist_build connect_codec (connect_payload 7 22)) \<noteq> []
   \<and> plist_parse connect_codec (to_string connect_codec
         (from_string connect_codec (plist_build connect_codec (connect_payload 7 22))))
       = Inr (connect_payload 7 22)
   \<and> (0::int) \<le> 22 \<and> (22::int) < 2 ^ 16
   \<and> protocol_connect connect_codec 7 22
       = Inr ([22, 0, 0, 0, 1, 0, 0, 0, 8, 0, 0, 0, 1, 0, 0, 0] @ [55, 32, 53, 54, 51, 50])
   \<and> (\<exists>m. parse connect_codec record_call makeParser []
              ([22, 0, 0, 0, 1, 0, 0, 0, 8, 0, 0, 0, 1, 0, 0, 0] @ [55, 32, 53, 54, 51, 50])
            = Some (Inr (\<lparr>len = 0, msg = ''7 5632''\<rparr>, [m]))
          \<and> plist_field m ''PortNumber'' = Some (PNumber 5632))
   \<and> (5632::int) mod 256 = 22 div 256 \<and> (5632::int) div 256 = 22 mod 256"
proof -
  have s: "byteSwap16 22 = 5632" by (simp add: byteSwap16_arith)
  have a: "show_int 7 = ''7''"
    by (simp add: show_int_def show_nat_digit) code_simp
  have b: "show_int 5632 = ''5632''"
    by (simp add: show_int_def show_nat_digit show_nat_more) code_simp
  have p: "from_string connect_codec (plist_build connect_codec (connect_payload 7 22))
      = [55, 32, 53, 54, 51, 50]"
    by (simp add: connect_codec_def connect_payload_def plist_field_def s a b)
  have t: "to_string connect_codec [55, 32, 53, 54, 51, 50] = ''7 5632''"
    by code_simp
  have 1: "from_string connect_codec (plist_build connect_codec (connect_payload 7 22)) \<noteq> []"
    unfolding p by simp
  have 2: "length (from_string connect_codec (plist_build connect_codec (connect_payload 7 22))) + 16
      < 2 ^ 32"
    unfolding p by simp
  have 3: "plist_parse connect_codec (to_string connect_codec
      (from_string connect_codec (plist_build connect_codec (connect_payload 7 22))))
      = Inr (connect_payload 7 22)"
    unfolding p t unfolding connect_payload_def s by code_simp
  have w: "writeUInt32LE (replicate 16 0) 22 0 = Inr [22, 0, 0, 0, 0, 0, 0, 0, 0, 0, 0, 0, 0, 0, 0, 0]"
    "writeUInt32LE [22, 0, 0, 0, 0, 0, 0, 0, 0, 0, 0, 0, 0, 0, 0, 0] 1 4
       = Inr [22, 0, 0, 0, 1, 0, 0, 0, 0, 0, 0, 0, 0, 0, 0, 0]"
    "writeUInt32LE [22, 0, 0, 0, 1, 0, 0, 0, 0, 0, 0, 0, 0, 0, 0, 0] 8 8
       = Inr [22, 0, 0, 0, 1, 0, 0, 0, 8, 0, 0, 0, 0, 0, 0, 0]"
    "writeUInt32LE [22, 0, 0, 0, 1, 0, 0, 0, 8, 0, 0, 0, 0, 0, 0, 0] 1 12
       = Inr [22, 0, 0, 0, 1, 0, 0, 0, 8, 0, 0, 0, 1, 0, 0, 0]"
    by code_simp+
  have f: "protocol_connect connect_codec 7 22
      = Inr ([22, 0, 0, 0, 1, 0, 0, 0, 8, 0, 0, 0, 1, 0, 0, 0] @ [55, 32, 53, 54, 51, 50])"
    unfolding protocol_connect_def pack_def Let_def p by (simp add: w)
  from connect_frame_port [OF 1 2 3] obtain hdr m n where
    r: "protocol_connect connect_codec 7 22 = Inr (hdr @ [55, 32, 53, 54, 51, 50])"
       "parse connect_codec record_call makeParser [] (hdr @ [55, 32, 53, 54, 51, 50])
          = Some (Inr (\<lparr>len = 0, msg = ''7 5632''\<rparr>, [m]))"
       "plist_field m ''PortNumber'' = Some (PNumber n)" "n = byteSwap16 22"
    unfolding p t by blast
  from r(1) f have h: "hdr = [22, 0, 0, 0, 1, 0, 0, 0, 8, 0, 0, 0, 1, 0, 0, 0]"
    by simp
  have m: "plist_field m ''PortNumber'' = Some (PNumber 5632)"
    using r(3) unfolding r(4) s .
  have q: "parse connect_codec record_call makeParser []
              ([22, 0, 0, 0, 1, 0, 0, 0, 8, 0, 0, 0, 1, 0, 0, 0] @ [55, 32, 53, 54, 51, 50])
            = Some (Inr (\<lparr>len = 0, msg = ''7 5632''\<rparr>, [m]))"
    using r(2) unfolding h .
  have e: "\<exists>m. parse connect_codec record_call makeParser []
              ([22, 0, 0, 0, 1, 0, 0, 0, 8, 0, 0, 0, 1, 0, 0, 0] @ [55, 32, 53, 54, 51, 50])
            = Some (Inr (\<lparr>len = 0, msg = ''7 5632''\<rparr>, [m]))
          \<and> plist_field m ''PortNumber'' = Some (PNumber 5632)"
    by (rule exI [where x = m]) (rule conjI [OF q m])
  have n: "(0::int) \<le> 22" "(22::int) < 2 ^ 16" "(5632::int) mod 256 = 22 div 256"
    "(5632::int) div 256 = 22 mod 256"
    by simp_all
  show ?thesis
    using 1 3 n f e by (intro conjI)
qed

section \<open>The tunnel connector\<close>

lemma number_new_UsbmuxdError: "n \<noteq> 0 \<Longrightarrow> number (new_UsbmuxdError t n) = Some n"
  by (simp add: new_UsbmuxdError_def Let_def)

text \<open>
  Claim C3.  \<^verbatim>\<open>connect\<close> has written its request, and the frame of one \<^verbatim>\<open>Result\<close> message
  arrives.  Code 0: the data listener is removed and then the promise is resolved, the
  connection is not closed, and no later data event reaches the parser.  Another code:
  the promise is rejected with an error that carries the code, and then the connection
  is closed.
\<close>

theorem connect_result:
  assumes "connect c deviceID devicePort = Inr (s0, w0)"
    and "is_header hdr (length p)" and "p \<noteq> []"
    and "plist_parse c (to_string c p) = Inr (Result n)"
  shows "\<exists>s w. connect_on_data c s0 w0 (hdr @ p) = Some (Inr (s, w)) \<and>
     (if n = 0
      then w = w0 @ [RemoveListener ''data'', Resolve] \<and> promise_of w = Fulfilled
           \<and> End \<notin> set w
           \<and> (\<forall>data. connect_on_data c s w data = Some (Inr (s, w)))
      else w = w0 @ [Reject (MuxErr (new_UsbmuxdError ''Tunnel failed'' n)), End]
           \<and> number (new_UsbmuxdError ''Tunnel failed'' n) = Some n
           \<and> promise_of w = Rejected (MuxErr (new_UsbmuxdError ''Tunnel failed'' n)))"
proof -
  from assms(1) obtain req where s0: "s0 = makeParser" and w0: "w0 = [Write req]"
    by (auto simp add: connect_def split: sum.splits)
  let ?w = "if n = 0 then w0 @ [RemoveListener ''data'', Resolve]
            else w0 @ [Reject (MuxErr (new_UsbmuxdError ''Tunnel failed'' n)), End]"
  have cb: "connect_onMsgComplete (Result n) w0 = Inr ?w"
    by (simp add: connect_onMsgComplete_def)
  have "parse c connect_onMsgComplete s0 w0 (hdr @ p)
      = Some (Inr (\<lparr>len = 0, msg = to_string c p\<rparr>, ?w))"
    by (rule parse_frame [where m = "Result n"]) (use assms cb s0 in \<open>simp_all add: makeParser_def\<close>)
  then have "connect_on_data c s0 w0 (hdr @ p)
      = Some (Inr (\<lparr>len = 0, msg = to_string c p\<rparr>, ?w))"
    by (simp add: connect_on_data_def w0)
  then show ?thesis
    by (auto simp add: connect_on_data_def number_new_UsbmuxdError w0)
qed

theorem connect_result_witness:
  "connect result_codec 7 22
     = Inr (makeParser, [Write [20, 0, 0, 0, 1, 0, 0, 0, 8, 0, 0, 0, 1, 0, 0, 0, 100, 105, 99, 116]])
   \<and> is_header [18, 0, 0, 0, 1, 0, 0, 0, 8, 0, 0, 0, 1, 0, 0, 0] (length [110, 111 :: byte])
   \<and> plist_parse result_codec (to_string result_codec [110, 111]) = Inr (Result 3)
   \<and> plist_parse result_codec (to_string result_codec [111, 107]) = Inr (Result 0)
   \<and> (\<exists>s. connect_on_data result_codec makeParser
             [Write [20, 0, 0, 0, 1, 0, 0, 0, 8, 0, 0, 0, 1, 0, 0, 0, 100, 105, 99, 116]]
             ([18, 0, 0, 0, 1, 0, 0, 0, 8, 0, 0, 0, 1, 0, 0, 0] @ [110, 111])
          = Some (Inr (s, [Write [20, 0, 0, 0, 1, 0, 0, 0, 8, 0, 0, 0, 1, 0, 0, 0, 100, 105, 99, 116],
                           Reject (MuxErr (new_UsbmuxdError ''Tunnel failed'' 3)), End])))
   \<and> number (new_UsbmuxdError ''Tunnel failed'' 3) = Some 3
   \<and> (\<exists>s. connect_on_data result_codec makeParser
             [Write [20, 0, 0, 0, 1, 0, 0, 0, 8, 0, 0, 0, 1, 0, 0, 0, 100, 105, 99, 116]]
             ([18, 0, 0, 0, 1, 0, 0, 0, 8, 0, 0, 0, 1, 0, 0, 0] @ [111, 107])
          = Some (Inr (s, [Write [20, 0, 0, 0, 1, 0, 0, 0, 8, 0, 0, 0, 1, 0, 0, 0, 100, 105, 99, 116],
                           RemoveListener ''data'', Resolve])))"
proof -
  have 0: "connect result_codec 7 22
     = Inr (makeParser, [Write [20, 0, 0, 0, 1, 0, 0, 0, 8, 0, 0, 0, 1, 0, 0, 0, 100, 105, 99, 116]])"
    by code_simp
  have 1: "is_header [18, 0, 0, 0, 1, 0, 0, 0, 8, 0, 0, 0, 1, 0, 0, 0] (length [110, 111 :: byte])"
    by (simp add: is_header_def readUInt32LE_def)
  have 2: "[110, 111 :: byte] \<noteq> []" by simp
  have 3: "plist_parse result_codec (to_string result_codec [110, 111]) = Inr (Result 3)"
    by code_simp
  have 4: "is_header [18, 0, 0, 0, 1, 0, 0, 0, 8, 0, 0, 0, 1, 0, 0, 0] (length [111, 107 :: byte])"
    by (simp add: is_header_def readUInt32LE_def)
  have 5: "[111, 107 :: byte] \<noteq> []" by simp
  have 6: "plist_parse result_codec (to_string result_codec [111, 107]) = Inr (Result 0)"
    by code_simp
  show ?thesis
    using connect_result [OF 0 1 2 3] connect_result [OF 0 4 5 6] 0 1 3 6 by auto
qed

section \<open>The registry and the listener\<close>

lemma set_object_keys: "set (object_keys r) = fst ` set (DAList.impl_of (own r))"
  by (auto simp add: object_keys_def Let_def)

lemma distinct_object_keys: "distinct (object_keys r)"
proof -
  have "distinct (map fst (DAList.impl_of (own r)))" by simp
  then show ?thesis
    by (auto simp add: object_keys_def Let_def)
qed

lemma object_keys_Nil: "object_keys r = [] \<longleftrightarrow> DAList.impl_of (own r) = []"
  using set_object_keys [of r] by (metis image_is_empty set_empty)

lemma lookup_object_keys: "k \<in> set (object_keys r) \<Longrightarrow> DAList.lookup (own r) k \<noteq> None"
  by (auto simp add: set_object_keys lookup.rep_eq map_of_eq_None_iff)


lemma all_object_keys_present:
  "list_all (\<lambda>k. DAList.lookup (own r) k \<noteq> None) (object_keys r)"
  using lookup_object_keys [of _ r] by (auto simp add: list_all_iff)

lemma object_keys_no_index:
  assumes "list_all (\<lambda>k. \<not> is_array_index k) (map fst (DAList.impl_of (own r)))"
  shows "object_keys r = map fst (DAList.impl_of (own r))"
proof -
  have "filter is_array_index (map fst (DAList.impl_of (own r))) = []"
    using assms by (auto simp add: filter_empty_conv list_all_iff)
  moreover have "filter (\<lambda>k. \<not> is_array_index k) (map fst (DAList.impl_of (own r)))
      = map fst (DAList.impl_of (own r))"
    using assms by (auto simp add: filter_id_conv list_all_iff)
  ultimately show ?thesis by (simp add: object_keys_def)
qed

text \<open>A property that the object owns hides whatever the prototype has under its name.\<close>

lemma get_property_own: "DAList.lookup (own r) k = Some d \<Longrightarrow> get_property r k = Dev d"
  by (simp add: get_property_def)



lemmas registry_eval = update.rep_eq empty.rep_eq lookup.rep_eq delete.rep_eq object_keys_def
  is_array_index_def is_digit_def digits_value_def conn_call_def empty_world_def
  device_ABC_def device_7_def device_DEF_def device_proto_def device_constructor_def
  get_property_def set_property_def delete_property_def inherited_def from_object_prototype_def
  object_prototype_methods_def field_DeviceID_def field_SerialNumber_def emit_string_def
  truthy_value_def

text \<open>One step of the loop on a key that the object owns.\<close>

lemma detach_each_own:
  assumes "DAList.lookup (own (devices w)) k = Some d"
  shows "detach_each did (k # ks) w =
    (if DeviceID d = did
     then detach_each did ks
            ((conn_call (Emit ''detached'' (Str (SerialNumber d))) w)
               \<lparr>devices := delete_property (devices w) k\<rparr>)
     else detach_each did ks w)"
  using assms
  by (simp add: get_property_own field_DeviceID_def field_SerialNumber_def emit_string_def
      conn_call_def Let_def)

lemma present_after_delete:
  assumes "distinct (k # ks)" "list_all (\<lambda>k'. DAList.lookup (own (devices w)) k' \<noteq> None) (k # ks)"
  shows "list_all (\<lambda>k'. DAList.lookup
            (own (devices ((conn_call e w)\<lparr>devices := delete_property (devices w) k\<rparr>))) k' \<noteq> None) ks"
  using assms by (auto simp add: list_all_iff conn_call_def delete_property_def)

lemma detach_each_ok:
  "distinct keys \<Longrightarrow> list_all (\<lambda>k. DAList.lookup (own (devices w)) k \<noteq> None) keys \<Longrightarrow>
     \<exists>w'. detach_each did keys w = Inr w'"
proof (induction keys arbitrary: w)
  case Nil
  then show ?case by simp
next
  case (Cons k ks)
  from Cons.prems obtain d where d: "DAList.lookup (own (devices w)) k = Some d" by auto
  let ?w2 = "(conn_call (Emit ''detached'' (Str (SerialNumber d))) w)
                 \<lparr>devices := delete_property (devices w) k\<rparr>"
  have 1: "distinct ks" using Cons.prems by simp
  have 2: "list_all (\<lambda>k'. DAList.lookup (own (devices ?w2)) k' \<noteq> None) ks"
    using Cons.prems by (rule present_after_delete)
  have 3: "list_all (\<lambda>k'. DAList.lookup (own (devices w)) k' \<noteq> None) ks"
    using Cons.prems by simp
  from Cons.IH [OF 1 2] Cons.IH [OF 1 3] show ?case
    unfolding detach_each_own [OF d] by auto
qed

lemma detach_each_log:
  "distinct keys \<Longrightarrow> list_all (\<lambda>k. DAList.lookup (own (devices w)) k \<noteq> None) keys \<Longrightarrow>
   detach_each did keys w = Inr w' \<Longrightarrow>
     \<exists>new. log w' = log w @ new \<and> list_all (\<lambda>x. \<exists>u r. x = (Emit ''detached'' (Str u), r)) new"
proof (induction keys arbitrary: w)
  case Nil
  then show ?case by simp
next
  case (Cons k ks)
  from Cons.prems obtain d where d: "DAList.lookup (own (devices w)) k = Some d" by auto
  let ?w2 = "(conn_call (Emit ''detached'' (Str (SerialNumber d))) w)
                 \<lparr>devices := delete_property (devices w) k\<rparr>"
  have 1: "distinct ks" using Cons.prems by simp
  show ?case
  proof (cases "DeviceID d = did")
    case True
    have 2: "list_all (\<lambda>k'. DAList.lookup (own (devices ?w2)) k' \<noteq> None) ks"
      using Cons.prems(1,2) by (rule present_after_delete)
    from Cons.prems(3) True have "detach_each did ks ?w2 = Inr w'"
      by (simp add: detach_each_own [OF d] del: detach_each.simps)
    from Cons.IH [OF 1 2 this] show ?thesis
      by (auto simp add: conn_call_def)
  next
    case False
    have 3: "list_all (\<lambda>k'. DAList.lookup (own (devices w)) k' \<noteq> None) ks"
      using Cons.prems by simp
    from Cons.prems(3) False have "detach_each did ks w = Inr w'"
      by (simp add: detach_each_own [OF d] del: detach_each.simps)
    from Cons.IH [OF 1 3 this] show ?thesis .
  qed
qed



text \<open>The listener's callback never throws.\<close>

lemma listener_ok: "\<exists>w1. listener_onMsgComplete m w = Inr w1"
proof (cases m)
  case (Detached n did)
  from detach_each_ok [OF distinct_object_keys all_object_keys_present] Detached
  show ?thesis by simp
qed (simp_all add: Let_def)




text \<open>One device comes and goes: the registry is empty again, and both notifications are in the log.\<close>

lemma listener_attach_detach_example:
  "\<exists>w2. listener_run [Attached 1 device_ABC, Detached 2 1] empty_world = Inr w2
      \<and> DAList.impl_of (own (devices w2)) = []
      \<and> map fst (log w2) = [Emit ''attached'' (Str ''ABC''), Emit ''detached'' (Str ''ABC'')]"
  by (simp add: registry_eval Let_def)

section \<open>The relay's handler\<close>

text \<open>
  Claim C6.  With an empty registry the handler emits \<^verbatim>\<open>error\<close> on the relay, ends the local
  connection and asks for no tunnel, whatever the relay's port and pin, and whatever the
  prototype of the registry.
\<close>

theorem handler_empty_registry:
  "handler r \<lparr>own = DAList.empty, proto = pr\<rparr>
     = Inr [Emit ''error'' (Err ''No devices connected''), End]
   \<and> (\<forall>deviceID port. TunnelConnect deviceID port
         \<notin> set [Emit ''error'' (Err ''No devices connected''), End])
   \<and> (\<forall>port. TunnelConnectUndefined port
         \<notin> set [Emit ''error'' (Err ''No devices connected''), End])
   \<and> object_keys \<lparr>own = DAList.empty, proto = pr\<rparr> = []"
  by (simp add: handler_def object_keys_Nil empty.rep_eq)

lemma not_truthy_string:
  assumes "\<not> truthy_string x"
  shows "\<not> and_string x P" "or_string x y = y"
  using assms by (auto simp add: truthy_string_def and_string_def or_string_def split: option.splits)

lemma handler_unpinned:
  assumes "object_keys devs = k # ks" "\<not> truthy_string (r_udid r)"
    "DAList.lookup (own devs) k = Some d"
  shows "handler r devs = Inr [TunnelConnect (DeviceID d) (r_devicePort r)]"
  using assms by (simp add: handler_def not_truthy_string get_property_own field_DeviceID_def)

lemma handler_pinned:
  assumes "r_udid r = Some p" "p \<noteq> []" "DAList.lookup (own devs) p = Some d"
  shows "handler r devs = Inr [TunnelConnect (DeviceID d) (r_devicePort r)]"
proof -
  have "DAList.impl_of (own devs) \<noteq> []"
    using assms(3) by (auto simp add: lookup.rep_eq)
  then have "object_keys devs \<noteq> []" by (simp add: object_keys_Nil)
  then show ?thesis
    using assms
    by (simp add: handler_def and_string_def or_string_def get_property_own field_DeviceID_def
        truthy_value_def)
qed

text \<open>
  A pin that names a property the registry inherits passes the test of line 449 although
  no such device is attached: \<^verbatim>\<open>devices['constructor']\<close> is a function, its \<^verbatim>\<open>DeviceID\<close> is
  undefined, and the handler calls \<^verbatim>\<open>connect(undefined, port)\<close>.
\<close>

lemma handler_pinned_inherited:
  "handler (new_Relay 22 2222 (Some \<lparr>timeout = None, udid = Some ''constructor''\<rparr>))
       \<lparr>own = DAList.update ''ABC'' device_ABC DAList.empty, proto = None\<rparr>
     = Inr [TunnelConnectUndefined 22]"
  by (simp add: registry_eval Let_def handler_def new_Relay_def opts_or_empty_def
      and_string_def or_string_def)

text \<open>
  Claim C7, as stated, fails.  The listener decodes \<^verbatim>\<open>Attached\<close> for the UDID \<^verbatim>\<open>ABC\<close> and then
  for the UDID \<^verbatim>\<open>7\<close>.  The registry holds \<^verbatim>\<open>ABC\<close> first, but \<^verbatim>\<open>7\<close> is an array index and
  \<^verbatim>\<open>Object.keys\<close> lists it first: a relay without a pin asks for a tunnel to the device
  attached last.
\<close>

theorem handler_not_earliest:
  "(case listener_run [Attached 1 device_ABC, Attached 2 device_7] empty_world of
      Inl e \<Rightarrow> False
    | Inr w \<Rightarrow>
        map fst (DAList.impl_of (own (devices w))) = [''ABC'', ''7'']
        \<and> r_udid relay_22 = None
        \<and> handler relay_22 (devices w) = Inr [TunnelConnect (DeviceID device_7) 22]
        \<and> handler relay_22 (devices w) \<noteq> Inr [TunnelConnect (DeviceID device_ABC) 22])"
  by (simp add: registry_eval Let_def handler_def relay_22_def new_Relay_def opts_or_empty_def
      and_string_def or_string_def)

text \<open>
  Claim C7, amended.  Without a pin (\<^verbatim>\<open>_udid\<close> absent or empty) the handler asks for a tunnel
  to the device under the first key of \<^verbatim>\<open>Object.keys(devices)\<close>; when no UDID in the
  registry is an array index, that is the earliest entry of the registry still present.
  With a pin that is not empty and that the registry holds, it asks for a tunnel to the
  pinned device.
\<close>

theorem handler_selects:
  "(\<not> truthy_string (r_udid r) \<and> DAList.impl_of (own devs) = (k, d) # rest
      \<and> list_all (\<lambda>k. \<not> is_array_index k) (map fst (DAList.impl_of (own devs)))
     \<longrightarrow> handler r devs = Inr [TunnelConnect (DeviceID d) (r_devicePort r)])
   \<and> (\<not> truthy_string (r_udid r) \<and> object_keys devs = k # ks
        \<and> DAList.lookup (own devs) k = Some d
     \<longrightarrow> handler r devs = Inr [TunnelConnect (DeviceID d) (r_devicePort r)])
   \<and> (r_udid r = Some p \<and> p \<noteq> [] \<and> DAList.lookup (own devs) p = Some d
     \<longrightarrow> handler r devs = Inr [TunnelConnect (DeviceID d) (r_devicePort r)])"
proof (intro conjI impI)
  assume a: "\<not> truthy_string (r_udid r) \<and> DAList.impl_of (own devs) = (k, d) # rest
      \<and> list_all (\<lambda>k. \<not> is_array_index k) (map fst (DAList.impl_of (own devs)))"
  then have "list_all (\<lambda>k. \<not> is_array_index k) (map fst (DAList.impl_of (own devs)))" by blast
  then have "object_keys devs = map fst (DAList.impl_of (own devs))"
    by (rule object_keys_no_index)
  then have "object_keys devs = k # map fst rest"
    using a by simp
  moreover have "DAList.lookup (own devs) k = Some d"
    using a by (simp add: lookup.rep_eq)
  ultimately show "handler r devs = Inr [TunnelConnect (DeviceID d) (r_devicePort r)]"
    using a by (simp add: handler_unpinned)
qed (simp_all add: handler_unpinned handler_pinned)

theorem handler_selects_witness:
  "\<not> truthy_string (r_udid relay_22)
   \<and> DAList.impl_of (DAList.update ''DEF'' device_DEF (DAList.update ''ABC'' device_ABC DAList.empty))
       = [(''ABC'', device_ABC), (''DEF'', device_DEF)]
   \<and> list_all (\<lambda>k. \<not> is_array_index k) [''ABC'', ''DEF'']
   \<and> handler relay_22
        \<lparr>own = DAList.update ''DEF'' device_DEF (DAList.update ''ABC'' device_ABC DAList.empty),
         proto = None\<rparr>
       = Inr [TunnelConnect 1 22]
   \<and> r_udid relay_DEF = Some ''DEF''
   \<and> handler relay_DEF
        \<lparr>own = DAList.update ''DEF'' device_DEF (DAList.update ''ABC'' device_ABC DAList.empty),
         proto = None\<rparr>
       = Inr [TunnelConnect 3 22]"
proof -
  let ?own = "DAList.update ''DEF'' device_DEF (DAList.update ''ABC'' device_ABC DAList.empty)"
  let ?devs = "\<lparr>own = ?own, proto = None\<rparr>"
  have 1: "\<not> truthy_string (r_udid relay_22)"
    by (simp add: relay_22_def new_Relay_def opts_or_empty_def truthy_string_def)
  have 2: "DAList.impl_of (own ?devs) = (''ABC'', device_ABC) # [(''DEF'', device_DEF)]"
    by (simp add: registry_eval)
  have 3: "list_all (\<lambda>k. \<not> is_array_index k) (map fst (DAList.impl_of (own ?devs)))"
    unfolding 2 by (simp add: registry_eval)
  have 4: "r_udid relay_DEF = Some ''DEF''"
    by (simp add: relay_DEF_def new_Relay_def opts_or_empty_def)
  have 5: "DAList.lookup (own ?devs) ''DEF'' = Some device_DEF"
    by (simp add: registry_eval)
  have a: "handler relay_22 ?devs = Inr [TunnelConnect (DeviceID device_ABC) (r_devicePort relay_22)]"
    using handler_selects [of relay_22 ?devs "''ABC''" device_ABC "[(''DEF'', device_DEF)]"] 1 2 3
    by blast
  have b: "handler relay_DEF ?devs = Inr [TunnelConnect (DeviceID device_DEF) (r_devicePort relay_DEF)]"
    using handler_selects [where r = relay_DEF and devs = ?devs and d = device_DEF and p = "''DEF''"] 4 5
    by simp
  have c: "DeviceID device_ABC = 1" "DeviceID device_DEF = 3" "r_devicePort relay_22 = 22"
    "r_devicePort relay_DEF = 22"
    by (simp_all add: device_ABC_def device_DEF_def relay_22_def relay_DEF_def new_Relay_def Let_def)
  have e2: "DAList.impl_of ?own = [(''ABC'', device_ABC), (''DEF'', device_DEF)]"
    using 2 by simp
  have e3: "list_all (\<lambda>k. \<not> is_array_index k) [''ABC'', ''DEF'']"
    using 3 unfolding 2 by simp
  show ?thesis
    using 1 e2 e3 4 a b unfolding c by simp
qed

section \<open>\<^verbatim>\<open>findDevice\<close> and its timer\<close>

lemma deliver_ignored: "list_all (ignored opts) es \<Longrightarrow> deliver opts es f = Inr f"
  by (induction opts es f rule: deliver.induct) (auto simp add: ignored_def on_attached_def)

lemma listener_new_ignored:
  assumes "listener_onMsgComplete m w = Inr w1" "\<not> qualifies opts m"
  shows "list_all (ignored opts) (drop (length (log w)) (log w1))"
proof (cases m)
  case (Result n)
  with assms show ?thesis
    by (auto simp add: conn_call_def ignored_def split: if_splits)
next
  case (Attached n props)
  with assms show ?thesis
    by (auto simp add: conn_call_def ignored_def qualifies_def Let_def)
next
  case (Detached n did)
  with assms have "detach_each did (object_keys (devices w)) w = Inr w1" by simp
  from detach_each_log [OF distinct_object_keys all_object_keys_present this] obtain new where
    n: "log w1 = log w @ new" "list_all (\<lambda>x. \<exists>u r. x = (Emit ''detached'' (Str u), r)) new"
    by blast
  have "ignored opts x" if "\<exists>u r. x = (Emit ''detached'' (Str u), r)" for x
    using that by (auto simp add: ignored_def)
  with n(2) have "list_all (ignored opts) new"
    by (auto simp add: list_all_iff)
  then show ?thesis by (simp add: n(1))
qed

lemma finder_run_waiting:
  "list_all (\<lambda>m. \<not> qualifies opts m) ms \<Longrightarrow>
     \<exists>w1. finder_run opts (map Message ms @ evs) w f = finder_run opts evs w1 f"
proof (induction ms arbitrary: w)
  case Nil
  then show ?case by auto
next
  case (Cons m ms)
  from listener_ok obtain w1 where w1: "listener_onMsgComplete m w = Inr w1" by blast
  from Cons.prems have "\<not> qualifies opts m" by simp
  from deliver_ignored [OF listener_new_ignored [OF w1 this]]
  have "deliver opts (drop (length (log w)) (log w1)) f = Inr f" .
  with w1 have "finder_run opts (map Message (m # ms) @ evs) w f
      = finder_run opts (map Message ms @ evs) w1 f" by simp
  with Cons.IH [of w1] Cons.prems show ?case by auto
qed

lemma promise_of_append: "promise_of xs \<noteq> Pending \<Longrightarrow> promise_of (xs @ ys) = promise_of xs"
  by (induction xs rule: promise_of.induct) auto

lemma deliver_calls: "deliver opts es f = Inr f' \<Longrightarrow> \<exists>more. calls f' = calls f @ more"
proof (induction opts es f rule: deliver.induct)
  case (2 opts ev u devs es f)
  then show ?case
    by (fastforce simp add: on_attached_def split: if_splits sum.splits option.splits)
qed auto

lemma finder_run_calls:
  "finder_run opts evs w f = Inr (w', f') \<Longrightarrow> \<exists>more. calls f' = calls f @ more"
proof (induction opts evs w f rule: finder_run.induct)
  case (1 opts w f)
  then show ?case by simp
next
  case (2 opts evs w f)
  then show ?case by (fastforce simp add: on_timeout_def split: if_splits)
next
  case (3 opts m evs w f)
  from "3.prems" obtain w1 f1 where
    s: "listener_onMsgComplete m w = Inr w1" "deliver opts (drop (length (log w)) (log w1)) f = Inr f1"
       "finder_run opts evs w1 f1 = Inr (w', f')"
    by (auto split: sum.splits)
  from "3.IH" [OF s] deliver_calls [OF s(2)] show ?case by auto
qed

text \<open>
  Claim C8.  A call of \<^verbatim>\<open>findDevice\<close> whose listener decodes only messages without a
  qualifying \<^verbatim>\<open>attached\<close> notification before the timer expires: the timer's callback ends
  the listener and then rejects the promise, with \<^verbatim>\<open>Requested device not connected\<close> when a
  UDID is pinned and \<^verbatim>\<open>No devices connected\<close> when none is.  Whatever happens afterwards, the
  promise stays rejected with that error.  A UDID is pinned when \<^verbatim>\<open>opts.udid\<close> is truthy, the
  test the code makes.
\<close>

theorem findDevice_timeout:
  assumes "list_all (\<lambda>m. \<not> qualifies opts m) ms"
  shows "\<exists>w1 f1. finder_run opts (map Message ms @ [TimerExpires]) w findDevice = Inr (w1, f1)
     \<and> calls f1 = [End, Reject (Err (if truthy_string (udid opts)
                                       then ''Requested device not connected''
                                       else ''No devices connected''))]
     \<and> promise_of (calls f1) = Rejected (Err (if truthy_string (udid opts)
                                       then ''Requested device not connected''
                                       else ''No devices connected''))
     \<and> (\<forall>evs w2 f2. finder_run opts evs w1 f1 = Inr (w2, f2) \<longrightarrow>
           promise_of (calls f2) = promise_of (calls f1) \<and> End \<in> set (calls f2))"
proof -
  let ?e = "Err (if truthy_string (udid opts) then ''Requested device not connected''
                 else ''No devices connected'')"
  from finder_run_waiting [OF assms] obtain w1 where
    "finder_run opts (map Message ms @ [TimerExpires]) w findDevice
       = finder_run opts [TimerExpires] w1 findDevice" by blast
  then have run: "finder_run opts (map Message ms @ [TimerExpires]) w findDevice
       = Inr (w1, on_timeout opts findDevice)"
    by (simp add: findDevice_def)
  have c: "calls (on_timeout opts findDevice) = [End, Reject ?e]"
    by (simp add: on_timeout_def findDevice_def)
  have p: "promise_of (calls (on_timeout opts findDevice)) = Rejected ?e"
    unfolding c by simp
  have "promise_of (calls f2) = promise_of (calls (on_timeout opts findDevice)) \<and> End \<in> set (calls f2)"
    if "finder_run opts evs w1 (on_timeout opts findDevice) = Inr (w2, f2)" for evs w2 f2
  proof -
    from finder_run_calls [OF that] obtain more where
      m: "calls f2 = calls (on_timeout opts findDevice) @ more" by blast
    show ?thesis
      unfolding m using p c by (simp add: promise_of_append)
  qed
  with run c p show ?thesis by blast
qed

theorem findDevice_timeout_witness:
  "list_all (\<lambda>m. \<not> qualifies \<lparr>timeout = None, udid = Some ''DEF''\<rparr> m) [Attached 1 device_ABC]
   \<and> (\<exists>w1 f1. finder_run \<lparr>timeout = None, udid = Some ''DEF''\<rparr>
                  [Message (Attached 1 device_ABC), TimerExpires] empty_world findDevice = Inr (w1, f1)
         \<and> calls f1 = [End, Reject (Err ''Requested device not connected'')])"
proof -
  have 1: "list_all (\<lambda>m. \<not> qualifies \<lparr>timeout = None, udid = Some ''DEF''\<rparr> m) [Attached 1 device_ABC]"
    by (simp add: qualifies_def and_string_def device_ABC_def)
  have 2: "truthy_string (udid \<lparr>timeout = None, udid = Some ''DEF''\<rparr>)"
    by (simp add: truthy_string_def)
  from findDevice_timeout [OF 1, of empty_world] 1 2 show ?thesis
    by auto
qed

section \<open>The default timeout\<close>

text \<open>
  Claim C10.  A timeout of 0 and an absent timeout give the same relay and the same delay
  for \<^verbatim>\<open>findDevice\<close>: both timers are armed with 1000.
\<close>

theorem timeout_zero_is_default:
  "(timeout o1 = None \<or> timeout o1 = Some 0 \<longrightarrow>
       r_timer_delay (new_Relay devicePort relayPort (Some o1)) = 1000
     \<and> findDevice_delay (Some o1) = 1000)
   \<and> r_timer_delay (new_Relay devicePort relayPort None) = 1000
   \<and> findDevice_delay None = 1000
   \<and> new_Relay devicePort relayPort (Some (o1\<lparr>timeout := Some 0\<rparr>))
       = new_Relay devicePort relayPort (Some (o1\<lparr>timeout := None\<rparr>))
   \<and> findDevice_delay (Some (o1\<lparr>timeout := Some 0\<rparr>)) = findDevice_delay (Some (o1\<lparr>timeout := None\<rparr>))"
  by (auto simp add: new_Relay_def findDevice_delay_def startListener_delay_def or_1000_def
      opts_or_empty_def)

theorem timeout_zero_is_default_witness:
  "timeout \<lparr>timeout = Some 0, udid = None\<rparr> = Some 0
   \<and> r_timer_delay (new_Relay 22 2222 (Some \<lparr>timeout = Some 0, udid = None\<rparr>)) = 1000
   \<and> findDevice_delay (Some \<lparr>timeout = Some 0, udid = None\<rparr>) = 1000"
  using timeout_zero_is_default [of "\<lparr>timeout = Some 0, udid = None\<rparr>" 22 2222, THEN conjunct1]
  by simp

end
